theory Spec2Isabelle
  imports Complex_Main
begin

section \<open>Math layer (math.go)\<close>

text \<open>
  The Go package computes on \<^verbatim>\<open>float64\<close>. The embedding idealises \<^verbatim>\<open>float64\<close> as
  \<^typ>\<open>real\<close>: rounding, infinities and NaN are outside the model. Go's \<^verbatim>\<open>int\<close> is
  \<^typ>\<open>int\<close>; the \<^verbatim>\<open>byte\<close> counters of the simplex never leave \<open>0..3\<close> and are \<^typ>\<open>nat\<close>.
  A run-time panic of the Go code is a value of type \<open>error\<close>.
\<close>

datatype error = IndexOutOfRange | BadSimplexLength

record Point =
  X :: real
  Y :: real

definition Pt :: "real \<Rightarrow> real \<Rightarrow> Point" where
  "Pt x y = \<lparr>X = x, Y = y\<rparr>"

definition Add :: "Point \<Rightarrow> Point \<Rightarrow> Point" where
  "Add p q = \<lparr>X = X p + X q, Y = Y p + Y q\<rparr>"

definition Sub :: "Point \<Rightarrow> Point \<Rightarrow> Point" where
  "Sub p q = \<lparr>X = X p - X q, Y = Y p - Y q\<rparr>"

definition Mul :: "Point \<Rightarrow> real \<Rightarrow> Point" where
  "Mul p k = \<lparr>X = X p * k, Y = Y p * k\<rparr>"

definition Div :: "Point \<Rightarrow> real \<Rightarrow> Point" where
  "Div p k = \<lparr>X = X p / k, Y = Y p / k\<rparr>"

definition Neg :: "Point \<Rightarrow> Point" where
  "Neg p = \<lparr>X = - X p, Y = - Y p\<rparr>"

definition Length :: "Point \<Rightarrow> real" where
  "Length p = sqrt (X p * X p + Y p * Y p)"

definition LengthSquared :: "Point \<Rightarrow> real" where
  "LengthSquared p = X p * X p + Y p * Y p"

definition Normalize :: "Point \<Rightarrow> Point" where
  "Normalize p = (let l = Length p in if l = 0 then p else Div p l)"

definition Dot :: "Point \<Rightarrow> Point \<Rightarrow> real" where
  "Dot p q = X p * X q + Y p * Y q"

definition Cross :: "Point \<Rightarrow> Point \<Rightarrow> real" where
  "Cross p q = X p * Y q - Y p * X q"

definition CrossPS :: "Point \<Rightarrow> real \<Rightarrow> Point" where
  "CrossPS p s = \<lparr>X = s * Y p, Y = - s * X p\<rparr>"

definition CrossSP :: "real \<Rightarrow> Point \<Rightarrow> Point" where
  "CrossSP s p = \<lparr>X = - s * Y p, Y = s * X p\<rparr>"

record Rotation =
  Sin :: real
  Cos :: real

definition NewRotation :: "real \<Rightarrow> Rotation" where
  "NewRotation theta = \<lparr>Sin = sin theta, Cos = cos theta\<rparr>"

definition Rotation_Mul :: "Rotation \<Rightarrow> Point \<Rightarrow> Point" where
  "Rotation_Mul r p = \<lparr>X = X p * Cos r - Y p * Sin r, Y = X p * Sin r + Y p * Cos r\<rparr>"

definition Rotation_MulT :: "Rotation \<Rightarrow> Point \<Rightarrow> Point" where
  "Rotation_MulT r p = \<lparr>X = X p * Cos r + Y p * Sin r, Y = Y p * Cos r - X p * Sin r\<rparr>"

record Transform =
  Position :: Point
  Rotation :: Rotation

definition NewTransform :: "Point \<Rightarrow> real \<Rightarrow> Transform" where
  "NewTransform position rotation = \<lparr>Position = position, Rotation = NewRotation rotation\<rparr>"

definition Transform_Mul :: "Transform \<Rightarrow> Point \<Rightarrow> Point" where
  "Transform_Mul t p = Add (Rotation_Mul (Rotation t) p) (Position t)"

definition Transform_MulT :: "Transform \<Rightarrow> Point \<Rightarrow> Point" where
  "Transform_MulT t p = Rotation_MulT (Rotation t) (Sub p (Position t))"

record Sweep =
  P0 :: Point
  P1 :: Point
  R0 :: real
  R1 :: real

definition GetTransform :: "Sweep \<Rightarrow> real \<Rightarrow> Transform" where
  "GetTransform s t =
     NewTransform (Add (Mul (P0 s) (1 - t)) (Mul (P1 s) t)) (R0 s * (1 - t) + R1 s * t)"

text \<open>The identity transform: no translation, rotation by the angle 0.\<close>

definition identity_xf :: Transform where
  "identity_xf = \<lparr>Position = \<lparr>X = 0, Y = 0\<rparr>, Rotation = \<lparr>Sin = 0, Cos = 1\<rparr>\<rparr>"

text \<open>\<^verbatim>\<open>math.MaxFloat64\<close>, the largest finite \<^verbatim>\<open>float64\<close>.\<close>

definition MaxFloat64 :: real where
  "MaxFloat64 = 2 ^ 1024 - 2 ^ 971"

section \<open>Shape model (shape.go)\<close>

record Circle =
  Center :: Point
  Radius :: real

record Polygon =
  Points :: "Point list"
  Normals :: "Point list"

text \<open>
  A value of the interface \<^verbatim>\<open>Shape\<close> has the dynamic type \<^verbatim>\<open>*Circle\<close>, \<^verbatim>\<open>*Polygon\<close>, or some
  other type that carries the two methods of the interface; such a value is represented by
  its two methods.
\<close>

datatype Shape =
  CircleShape Circle
| PolygonShape Polygon
| OtherShape "Point \<Rightarrow> error + int" "int \<Rightarrow> error + Point"

text \<open>Reading a Go slice by an \<^verbatim>\<open>int\<close> index panics out of range.\<close>

definition index :: "'a list \<Rightarrow> int \<Rightarrow> error + 'a" where
  "index xs i = (if 0 \<le> i \<and> i < int (length xs) then Inr (xs ! nat i) else Inl IndexOutOfRange)"

fun bindE :: "error + 'a \<Rightarrow> ('a \<Rightarrow> error + 'b) \<Rightarrow> error + 'b" where
  "bindE (Inl e) f = Inl e"
| "bindE (Inr x) f = f x"

text \<open>
  The loop of \<^verbatim>\<open>Polygon.getSupport\<close>: \<open>i\<close> runs from 1 to \<open>len(p.Points) - 1\<close>; the list
  argument is the part of \<^verbatim>\<open>p.Points\<close> from index \<open>i\<close> on.
\<close>

fun getSupport_loop :: "Point \<Rightarrow> Point list \<Rightarrow> int \<Rightarrow> int \<Rightarrow> real \<Rightarrow> int" where
  "getSupport_loop dir [] i idx maxDist = idx"
| "getSupport_loop dir (p # ps) i idx maxDist =
     (let dist = Dot dir p in
      if dist > maxDist then getSupport_loop dir ps (i + 1) i dist
      else getSupport_loop dir ps (i + 1) idx maxDist)"

definition Polygon_getSupport :: "Polygon \<Rightarrow> Point \<Rightarrow> error + int" where
  "Polygon_getSupport p dir =
     (case Points p of
        [] \<Rightarrow> Inl IndexOutOfRange
      | p0 # ps \<Rightarrow> Inr (getSupport_loop dir ps 1 0 (Dot dir p0)))"

fun getSupport :: "Shape \<Rightarrow> Point \<Rightarrow> error + int" where
  "getSupport (CircleShape c) dir = Inr 0"
| "getSupport (PolygonShape p) dir = Polygon_getSupport p dir"
| "getSupport (OtherShape gs gv) dir = gs dir"

fun getVertex :: "Shape \<Rightarrow> int \<Rightarrow> error + Point" where
  "getVertex (CircleShape c) i = Inr (Center c)"
| "getVertex (PolygonShape p) i = index (Points p) i"
| "getVertex (OtherShape gs gv) i = gv i"

text \<open>The loop of \<^verbatim>\<open>NewPolygon\<close> over the indices \<open>i\<close> of \<^verbatim>\<open>points\<close>.\<close>

definition NewPolygon_normal :: "Point list \<Rightarrow> nat \<Rightarrow> Point" where
  "NewPolygon_normal points i =
     (let j = (if i + 1 \<ge> length points then 0 else i + 1);
          edge = Sub (points ! j) (points ! i)
      in Normalize (CrossPS edge 1))"

definition NewPolygon :: "Point list \<Rightarrow> Polygon" where
  "NewPolygon points =
     \<lparr>Points = points, Normals = map (NewPolygon_normal points) [0..<length points]\<rparr>"

definition Rectangle :: "Point \<Rightarrow> Point \<Rightarrow> Polygon" where
  "Rectangle center extents = NewPolygon
     [Add center \<lparr>X = - X extents, Y = - Y extents\<rparr>,
      Add center \<lparr>X = X extents, Y = - Y extents\<rparr>,
      Add center \<lparr>X = X extents, Y = Y extents\<rparr>,
      Add center \<lparr>X = - X extents, Y = Y extents\<rparr>]"

section \<open>Collision dispatcher\<close>

record Collision =
  Normal :: Point
  Depth :: real

text \<open>
  The Go functions return \<^verbatim>\<open>*Collision\<close>; \<^verbatim>\<open>nil\<close> is \<open>None\<close>.
\<close>

definition CollideCircles :: "Circle \<Rightarrow> Transform \<Rightarrow> Circle \<Rightarrow> Transform \<Rightarrow> Collision option" where
  "CollideCircles a xfa b xfb =
     (let centerA = Add (Position xfa) (Center a);
          centerB = Add (Position xfb) (Center b);
          n = Sub centerB centerA;
          r = Radius a + Radius b;
          d = LengthSquared n
      in if d > r * r then None
         else let n' = (if d \<noteq> 0 then Div n d else \<lparr>X = 1, Y = 0\<rparr>);
                  d' = sqrt d
              in Some \<lparr>Normal = n', Depth = d' - r\<rparr>)"

text \<open>
  The loop of \<^verbatim>\<open>CollidePolygonAndCircle\<close> over the indices of \<^verbatim>\<open>a.Points\<close>. The result
  \<open>Inr None\<close> is the early \<^verbatim>\<open>return nil\<close>; \<open>Inr (Some (normalIndex, separation))\<close> is the
  state of the two variables when the loop ends.
\<close>

fun PolygonAndCircle_loop ::
  "Polygon \<Rightarrow> Point \<Rightarrow> real \<Rightarrow> nat list \<Rightarrow> int \<Rightarrow> real \<Rightarrow> error + (int \<times> real) option" where
  "PolygonAndCircle_loop a center radius [] normalIndex separation =
     Inr (Some (normalIndex, separation))"
| "PolygonAndCircle_loop a center radius (i # is) normalIndex separation =
     bindE (index (Normals a) (int i)) (\<lambda>ni.
     bindE (index (Points a) (int i)) (\<lambda>pi.
       let s = Dot ni (Sub center pi) in
       if s > radius then Inr None
       else if s > separation then PolygonAndCircle_loop a center radius is (int i) s
       else PolygonAndCircle_loop a center radius is normalIndex separation))"

definition CollidePolygonAndCircle ::
  "Polygon \<Rightarrow> Transform \<Rightarrow> Circle \<Rightarrow> Transform \<Rightarrow> error + Collision option" where
  "CollidePolygonAndCircle a xfa b xfb =
     (let center = Transform_MulT xfa (Add (Center b) (Position xfb)) in
      bindE (PolygonAndCircle_loop a center (Radius b) [0..<length (Points a)] 0 (- MaxFloat64))
        (\<lambda>r. case r of
           None \<Rightarrow> Inr None
         | Some (normalIndex, separation) \<Rightarrow>
             let i = normalIndex;
                 j = (if i + 1 = int (length (Points a)) then 0 else i + 1)
             in bindE (index (Points a) i) (\<lambda>v1.
                bindE (index (Points a) j) (\<lambda>v2.
                  if separation = 0 then
                    bindE (index (Normals a) normalIndex) (\<lambda>nn.
                      Inr (Some \<lparr>Normal = Neg (Rotation_Mul (Rotation xfa) nn), Depth = Radius b\<rparr>))
                  else
                    let u1 = Dot (Sub center v1) (Sub v2 v1);
                        u2 = Dot (Sub center v2) (Sub v1 v2)
                    in if u1 \<le> 0 then
                         (let d = Sub center v1 in
                          if Dot d d > Radius b * Radius b then Inr None
                          else let n = Normalize (Rotation_Mul (Rotation xfa) (Sub v1 center))
                               in Inr (Some \<lparr>Normal = n, Depth = Radius b - separation\<rparr>))
                       else if u2 \<le> 0 then
                         (let n = Sub center v2 in
                          if Dot n n > Radius b * Radius b then Inr None
                          else Inr (Some \<lparr>Normal = Normalize (Rotation_Mul (Rotation xfa) n),
                                           Depth = Radius b - separation\<rparr>))
                       else
                         bindE (index (Normals a) normalIndex) (\<lambda>n.
                           let face = Mul (Add v1 v2) 0.5 in
                           if Dot (Sub center face) n > Radius b then Inr None
                           else Inr (Some \<lparr>Normal = Rotation_Mul (Rotation xfa) n,
                                            Depth = Radius b - separation\<rparr>))))))"

definition CollideCircleAndPolygon ::
  "Circle \<Rightarrow> Transform \<Rightarrow> Polygon \<Rightarrow> Transform \<Rightarrow> error + Collision option" where
  "CollideCircleAndPolygon a xfa b xfb =
     bindE (CollidePolygonAndCircle b xfb a xfa) (\<lambda>collision.
       case collision of
         None \<Rightarrow> Inr None
       | Some c \<Rightarrow> Inr (Some (c\<lparr>Normal := Neg (Normal c)\<rparr>)))"

text \<open>The inner loop of \<^verbatim>\<open>findMaxSeparation\<close> over the points of \<open>b\<close>.\<close>

fun deepest_point :: "Point \<Rightarrow> Point \<Rightarrow> Point list \<Rightarrow> real \<Rightarrow> real" where
  "deepest_point n v [] d = d"
| "deepest_point n v (bj # bs) d =
     (let dist = Dot n (Sub bj v) in
      if dist < d then deepest_point n v bs dist else deepest_point n v bs d)"

text \<open>The outer loop of \<^verbatim>\<open>findMaxSeparation\<close> over the indices of \<^verbatim>\<open>a.Points\<close>.\<close>

fun findMaxSeparation_loop ::
  "Polygon \<Rightarrow> Transform \<Rightarrow> Polygon \<Rightarrow> Transform \<Rightarrow> nat list \<Rightarrow> int \<Rightarrow> real \<Rightarrow> error + (int \<times> real)" where
  "findMaxSeparation_loop a xfa b xfb [] bestIndex maxSeparation = Inr (bestIndex, maxSeparation)"
| "findMaxSeparation_loop a xfa b xfb (i # is) bestIndex maxSeparation =
     bindE (index (Normals a) (int i)) (\<lambda>n0.
     bindE (index (Points a) (int i)) (\<lambda>v0.
       let n = Rotation_MulT (Rotation xfb) (Rotation_Mul (Rotation xfa) n0);
           v = Transform_MulT xfb (Transform_Mul xfa v0);
           d = deepest_point n v (Points b) MaxFloat64
       in if d > maxSeparation then findMaxSeparation_loop a xfa b xfb is (int i) d
          else findMaxSeparation_loop a xfa b xfb is bestIndex maxSeparation))"

definition findMaxSeparation ::
  "Polygon \<Rightarrow> Transform \<Rightarrow> Polygon \<Rightarrow> Transform \<Rightarrow> error + (int \<times> real)" where
  "findMaxSeparation a xfa b xfb =
     findMaxSeparation_loop a xfa b xfb [0..<length (Points a)] 0 (- MaxFloat64)"

text \<open>The loop of \<^verbatim>\<open>findIncidentEdge\<close> over \<^verbatim>\<open>b.Normals\<close>, from index \<open>i\<close> on.\<close>

fun incident_loop :: "Point \<Rightarrow> Point list \<Rightarrow> int \<Rightarrow> int \<Rightarrow> real \<Rightarrow> int" where
  "incident_loop normal [] i idx minDot = idx"
| "incident_loop normal (bn # bns) i idx minDot =
     (let dot = Dot normal bn in
      if dot < minDot then incident_loop normal bns (i + 1) i dot
      else incident_loop normal bns (i + 1) idx minDot)"

definition findIncidentEdge ::
  "Polygon \<Rightarrow> Transform \<Rightarrow> Polygon \<Rightarrow> Transform \<Rightarrow> int \<Rightarrow> error + (Point \<times> Point)" where
  "findIncidentEdge a xfa b xfb edge =
     bindE (index (Normals a) edge) (\<lambda>normal0.
       let normal = Rotation_MulT (Rotation xfb) (Rotation_Mul (Rotation xfa) normal0);
           i = incident_loop normal (Normals b) 0 0 MaxFloat64;
           j = (if i + 1 = int (length (Points b)) then 0 else i + 1)
       in bindE (index (Points b) i) (\<lambda>pi.
          bindE (index (Points b) j) (\<lambda>pj.
            Inr (Transform_Mul xfb pi, Transform_Mul xfb pj))))"

text \<open>
  \<^verbatim>\<open>clip\<close>. The local \<^verbatim>\<open>out\<close> is a \<^verbatim>\<open>[2]Point\<close>, here a pair; a write \<^verbatim>\<open>out[sp] = p\<close> with
  \<open>sp\<close> outside \<open>0..1\<close> panics. The slice \<^verbatim>\<open>edge\<close> is a list; the function returns the count
  \<open>sp\<close> and the slice as it has written it back.
\<close>

definition out_write :: "Point \<times> Point \<Rightarrow> int \<Rightarrow> Point \<Rightarrow> error + (Point \<times> Point)" where
  "out_write out sp p =
     (if sp = 0 then Inr (p, snd out)
      else if sp = 1 then Inr (fst out, p)
      else Inl IndexOutOfRange)"

definition clip :: "Point \<Rightarrow> real \<Rightarrow> Point list \<Rightarrow> error + (int \<times> Point list)" where
  "clip n c edge =
     bindE (index edge 0) (\<lambda>e0.
     bindE (index edge 1) (\<lambda>e1.
       let out = (e0, e1);
           sp = 0;
           d1 = Dot n e0 - c;
           d2 = Dot n e1 - c
       in bindE (if d1 \<le> 0 then bindE (out_write out sp e0) (\<lambda>out. Inr (out, sp + 1))
                 else Inr (out, sp)) (\<lambda>(out, sp).
          bindE (if d2 \<le> 0 then bindE (out_write out sp e1) (\<lambda>out. Inr (out, sp + 1))
                 else Inr (out, sp)) (\<lambda>(out, sp).
          bindE (if d1 * d2 < 0 then
                   (let alpha = d1 / (d1 - d2) in
                    bindE (out_write out sp (Add e0 (Mul (Sub e1 e0) alpha))) (\<lambda>out.
                      Inr (out, sp + 1)))
                 else Inr (out, sp)) (\<lambda>(out, sp).
            Inr (sp, edge[0 := fst out, 1 := snd out]))))))"

text \<open>
  \<^verbatim>\<open>CollidePolygons\<close> from the point where the reference polygon \<open>a\<close>, the incident polygon
  \<open>b\<close>, the reference \<open>edge\<close> and \<open>flip\<close> are fixed (after the swap).
\<close>

definition CollidePolygons_reference ::
  "Polygon \<Rightarrow> Transform \<Rightarrow> Polygon \<Rightarrow> Transform \<Rightarrow> int \<Rightarrow> bool \<Rightarrow> error + Collision option" where
  "CollidePolygons_reference a xfa b xfb edge flip =
     bindE (findIncidentEdge a xfa b xfb edge) (\<lambda>(ie0, ie1).
       let i = edge;
           j = (if i + 1 = int (length (Points a)) then 0 else i + 1)
       in bindE (index (Points a) i) (\<lambda>v1.
          bindE (index (Points a) j) (\<lambda>v2.
            let tangent = Rotation_Mul (Rotation xfa) (Normalize (Sub v2 v1));
                normal = CrossPS tangent 1;
                v1 = Transform_Mul xfa v1;
                v2 = Transform_Mul xfa v2;
                refC = Dot normal v1;
                negSide = - Dot tangent v1;
                posSide = Dot tangent v2
            in bindE (clip (Neg tangent) negSide [ie0, ie1]) (\<lambda>(sp1, incidentEdge1).
               if sp1 < 2 then Inr None
               else bindE (clip tangent posSide incidentEdge1) (\<lambda>(sp2, incidentEdge2).
                 if sp2 < 2 then Inr None
                 else bindE (index incidentEdge2 0) (\<lambda>p0.
                      bindE (index incidentEdge2 1) (\<lambda>p1.
                        let separation0 = Dot normal p0 - refC;
                            overlap = (if separation0 \<le> 0 then - separation0 else 0);
                            separation1 = Dot normal p1 - refC;
                            overlap = (if separation1 \<le> 0 then max overlap (- separation1)
                                       else overlap);
                            normal = (if flip then Neg normal else normal)
                        in if overlap = 0 then Inr None
                           else Inr (Some \<lparr>Normal = normal, Depth = overlap\<rparr>))))))))"

definition CollidePolygons ::
  "Polygon \<Rightarrow> Transform \<Rightarrow> Polygon \<Rightarrow> Transform \<Rightarrow> error + Collision option" where
  "CollidePolygons a xfa b xfb =
     bindE (findMaxSeparation a xfa b xfb) (\<lambda>(edgeA, separationA).
       if separationA \<ge> 0 then Inr None
       else bindE (findMaxSeparation b xfb a xfa) (\<lambda>(edgeB, separationB).
         if separationB \<ge> 0 then Inr None
         else if separationB > separationA
           then CollidePolygons_reference b xfb a xfa edgeB True
           else CollidePolygons_reference a xfa b xfb edgeA False))"

fun Collide :: "Shape \<Rightarrow> Transform \<Rightarrow> Shape \<Rightarrow> Transform \<Rightarrow> error + Collision option" where
  "Collide (CircleShape a) xfa (CircleShape b) xfb = Inr (CollideCircles a xfa b xfb)"
| "Collide (CircleShape a) xfa (PolygonShape b) xfb = CollideCircleAndPolygon a xfa b xfb"
| "Collide (PolygonShape a) xfa (CircleShape b) xfb = CollidePolygonAndCircle a xfa b xfb"
| "Collide (PolygonShape a) xfa (PolygonShape b) xfb = CollidePolygons a xfa b xfb"
| "Collide a xfa b xfb = Inr None"

section \<open>Simplex and GJK (the second file of math.go)\<close>

record vertex =
  va :: Point
  vb :: Point
  vp :: Point
  vu :: real
  indexA :: int
  indexB :: int

text \<open>A Go array \<^verbatim>\<open>[3]T\<close> is a triple; reading or writing it at an index outside \<open>0..2\<close> panics.\<close>

type_synonym 'a array3 = "'a \<times> 'a \<times> 'a"

definition get3 :: "'a array3 \<Rightarrow> nat \<Rightarrow> error + 'a" where
  "get3 a i = (case a of (x0, x1, x2) \<Rightarrow>
     if i = 0 then Inr x0 else if i = 1 then Inr x1 else if i = 2 then Inr x2
     else Inl IndexOutOfRange)"

definition set3 :: "'a array3 \<Rightarrow> nat \<Rightarrow> 'a \<Rightarrow> error + 'a array3" where
  "set3 a i y = (case a of (x0, x1, x2) \<Rightarrow>
     if i = 0 then Inr (y, x1, x2) else if i = 1 then Inr (x0, y, x2)
     else if i = 2 then Inr (x0, x1, y)
     else Inl IndexOutOfRange)"

definition el0 :: "'a array3 \<Rightarrow> 'a" where "el0 a = fst a"
definition el1 :: "'a array3 \<Rightarrow> 'a" where "el1 a = fst (snd a)"
definition el2 :: "'a array3 \<Rightarrow> 'a" where "el2 a = snd (snd a)"

record Simplex =
  count :: nat
  v :: "vertex array3"

record SimplexCache =
  metric :: real
  ccount :: nat
  cindexA :: "int array3"
  cindexB :: "int array3"

definition zero_Point :: Point where
  "zero_Point = \<lparr>X = 0, Y = 0\<rparr>"

definition zero_vertex :: vertex where
  "zero_vertex = \<lparr>va = zero_Point, vb = zero_Point, vp = zero_Point, vu = 0, indexA = 0, indexB = 0\<rparr>"

text \<open>The zero value \<^verbatim>\<open>Simplex{}\<close> of \<^verbatim>\<open>var simplex Simplex\<close>.\<close>

definition zero_Simplex :: Simplex where
  "zero_Simplex = \<lparr>count = 0, v = (zero_vertex, zero_vertex, zero_vertex)\<rparr>"

definition zero_SimplexCache :: SimplexCache where
  "zero_SimplexCache = \<lparr>metric = 0, ccount = 0, cindexA = (0, 0, 0), cindexB = (0, 0, 0)\<rparr>"

definition Metric :: "Simplex \<Rightarrow> error + real" where
  "Metric s =
     (if count s = 1 then Inr 0
      else if count s = 2 then
        (let a = el0 (v s); b = el1 (v s) in Inr (Length (Sub (vp a) (vp b))))
      else if count s = 3 then
        (let a = el0 (v s); b = el1 (v s); c = el2 (v s)
         in Inr (Cross (Sub (vp b) (vp a)) (Sub (vp c) (vp a))))
      else Inl BadSimplexLength)"

definition ClosestPoint :: "Simplex \<Rightarrow> error + Point" where
  "ClosestPoint s =
     (if count s = 1 then Inr (vp (el0 (v s)))
      else if count s = 2 then
        Inr (Add (Mul (vp (el0 (v s))) (vu (el0 (v s)))) (Mul (vp (el1 (v s))) (vu (el1 (v s)))))
      else if count s = 3 then Inr zero_Point
      else Inl BadSimplexLength)"

definition searchDirection :: "Simplex \<Rightarrow> error + Point" where
  "searchDirection s =
     (if count s = 1 then Inr (Neg (vp (el0 (v s))))
      else if count s = 2 then
        (let a = vp (el0 (v s));
             b = vp (el1 (v s));
             ab = Sub b a;
             ao = Neg a;
             sign = Cross ab ao
         in if sign > 0 then Inr (CrossSP 1 ab) else Inr (CrossPS ab 1))
      else Inl BadSimplexLength)"

definition evolveLine :: "Simplex \<Rightarrow> Simplex" where
  "evolveLine s =
     (let a = el0 (v s);
          b = el1 (v s);
          n = Sub (vp b) (vp a);
          u = Dot (vp b) n;
          w = Dot (Neg (vp a)) n
      in if w \<le> 0 then s\<lparr>count := 1, v := (a, el1 (v s), el2 (v s))\<rparr>
         else if u \<le> 0 then s\<lparr>count := 1, v := (b, el1 (v s), el2 (v s))\<rparr>
         else let l = LengthSquared n
              in s\<lparr>v := (a\<lparr>vu := u / l\<rparr>, b\<lparr>vu := w / l\<rparr>, el2 (v s))\<rparr>)"

text \<open>
  \<^verbatim>\<open>evolveTriangle\<close>. After the test of region C the Go code has no \<^verbatim>\<open>return\<close>: the simplex
  \<open>s1\<close> it has reached there is the one the rest of the function goes on with.
\<close>

definition evolveTriangle :: "Simplex \<Rightarrow> Simplex" where
  "evolveTriangle s =
     (let a = el0 (v s);
          b = el1 (v s);
          c = el2 (v s);
          ab = Sub (vp b) (vp a);
          bc = Sub (vp c) (vp b);
          ca = Sub (vp a) (vp c);
          uAB = Dot (vp b) ab; vAB = Dot (Neg (vp a)) ab;
          uBC = Dot (vp c) bc; vBC = Dot (Neg (vp b)) bc;
          uCA = Dot (vp a) ca; vCA = Dot (Neg (vp c)) ca
      in if vAB \<le> 0 \<and> uCA \<le> 0 then s\<lparr>count := 1, v := (a, b, c)\<rparr>
         else if uAB \<le> 0 \<and> vBC \<le> 0 then s\<lparr>count := 1, v := (b, b, c)\<rparr>
         else
           let s1 = (if uBC \<le> 0 \<and> vCA \<le> 0 then s\<lparr>count := 1, v := (c, b, c)\<rparr> else s);
               area = Cross (Sub (vp b) (vp a)) (Sub (vp c) (vp a));
               uABC = Cross (vp b) (vp c) * area;
               vABC = Cross (vp c) (vp a) * area;
               wABC = Cross (vp a) (vp b) * area
           in if uAB > 0 \<and> vAB > 0 \<and> wABC \<le> 0 then
                (let l = LengthSquared ab
                 in s1\<lparr>count := 2, v := (a\<lparr>vu := uAB / l\<rparr>, b\<lparr>vu := vAB / l\<rparr>, el2 (v s1))\<rparr>)
              else if uBC > 0 \<and> vBC > 0 \<and> uABC \<le> 0 then
                (let l = LengthSquared bc
                 in s1\<lparr>count := 2, v := (b\<lparr>vu := uBC / l\<rparr>, c\<lparr>vu := vBC / l\<rparr>, el2 (v s1))\<rparr>)
              else if uCA > 0 \<and> vCA > 0 \<and> vABC \<le> 0 then
                (let l = LengthSquared ca
                 in s1\<lparr>count := 2, v := (c\<lparr>vu := uCA / l\<rparr>, a\<lparr>vu := vCA / l\<rparr>, el2 (v s1))\<rparr>)
              else
                (let d = uABC + vABC + wABC
                 in s1\<lparr>v := ((el0 (v s1))\<lparr>vu := uABC / d\<rparr>,
                              (el1 (v s1))\<lparr>vu := vABC / d\<rparr>,
                              (el2 (v s1))\<lparr>vu := wABC / d\<rparr>)\<rparr>))"

definition evolve :: "Simplex \<Rightarrow> error + Simplex" where
  "evolve s =
     (if count s = 1 then Inr s
      else if count s = 2 then Inr (evolveLine s)
      else if count s = 3 then Inr (evolveTriangle s)
      else Inl BadSimplexLength)"

text \<open>
  The body of \<^verbatim>\<open>GJK\<close>. The index pairs that the loop stores in \<^verbatim>\<open>oldIndexA\<close> and
  \<^verbatim>\<open>oldIndexB\<close> for \<open>i < s.count\<close> are a list of pairs; storing at \<open>i = 3\<close> panics.
\<close>

definition old_indices :: "Simplex \<Rightarrow> (int \<times> int) list" where
  "old_indices s =
     map (\<lambda>x. (indexA x, indexB x)) (take (count s) [el0 (v s), el1 (v s), el2 (v s)])"

definition make_vertex ::
  "Shape \<Rightarrow> Transform \<Rightarrow> Shape \<Rightarrow> Transform \<Rightarrow> int \<Rightarrow> int \<Rightarrow> error + vertex" where
  "make_vertex a xfa b xfb ia ib =
     bindE (getVertex a ia) (\<lambda>pa.
     bindE (getVertex b ib) (\<lambda>pb.
       Inr \<lparr>va = pa, vb = pb, vp = Sub (Transform_Mul xfb pb) (Transform_Mul xfa pa),
            vu = 1, indexA = ia, indexB = ib\<rparr>))"

definition new_support ::
  "Shape \<Rightarrow> Transform \<Rightarrow> Shape \<Rightarrow> Transform \<Rightarrow> Point \<Rightarrow> error + vertex" where
  "new_support a xfa b xfb dir =
     bindE (getSupport a (Rotation_MulT (Rotation xfa) (Neg dir))) (\<lambda>ia.
     bindE (getSupport b (Rotation_MulT (Rotation xfb) dir)) (\<lambda>ib.
       make_vertex a xfa b xfb ia ib))"

text \<open>
  The \<^verbatim>\<open>for\<close> loop of \<^verbatim>\<open>GJK\<close> has no bound. The first argument is the number of iterations
  the model may still start; \<open>None\<close> says that it has used them all without leaving the loop.
\<close>

fun GJK_loop ::
  "nat \<Rightarrow> Shape \<Rightarrow> Transform \<Rightarrow> Shape \<Rightarrow> Transform \<Rightarrow> Simplex \<Rightarrow> (error + Simplex) option" where
  "GJK_loop 0 a xfa b xfb s = None"
| "GJK_loop (Suc k) a xfa b xfb s =
     (if count s > 3 then Some (Inl IndexOutOfRange)
      else
        let old = old_indices s in
        case evolve s of
          Inl e \<Rightarrow> Some (Inl e)
        | Inr s1 \<Rightarrow>
            if count s1 = 3 then Some (Inr s1)
            else
              (case searchDirection s1 of
                 Inl e \<Rightarrow> Some (Inl e)
               | Inr dir \<Rightarrow>
                   if LengthSquared dir = 0 then Some (Inr s1)
                   else
                     (case new_support a xfa b xfb dir of
                        Inl e \<Rightarrow> Some (Inl e)
                      | Inr support \<Rightarrow>
                          if (indexA support, indexB support) \<in> set old then Some (Inr s1)
                          else
                            (case set3 (v s1) (count s1) support of
                               Inl e \<Rightarrow> Some (Inl e)
                             | Inr v' \<Rightarrow>
                                 GJK_loop k a xfa b xfb (s1\<lparr>v := v', count := count s1 + 1\<rparr>)))))"

definition GJK ::
  "nat \<Rightarrow> Simplex \<Rightarrow> Shape \<Rightarrow> Transform \<Rightarrow> Shape \<Rightarrow> Transform \<Rightarrow> (error + Simplex) option" where
  "GJK k s a xfa b xfb =
     (if count s = 0 then
        (case make_vertex a xfa b xfb 0 0 of
           Inl e \<Rightarrow> Some (Inl e)
         | Inr v0 \<Rightarrow> GJK_loop k a xfa b xfb (s\<lparr>count := 1, v := (v0, el1 (v s), el2 (v s))\<rparr>))
      else GJK_loop k a xfa b xfb s)"

definition Distance ::
  "nat \<Rightarrow> Shape \<Rightarrow> Transform \<Rightarrow> Shape \<Rightarrow> Transform \<Rightarrow> (error + real) option" where
  "Distance k a xfa b xfb =
     (case GJK k zero_Simplex a xfa b xfb of
        None \<Rightarrow> None
      | Some (Inl e) \<Rightarrow> Some (Inl e)
      | Some (Inr s) \<Rightarrow> Some (bindE (ClosestPoint s) (\<lambda>p. Inr (Length p))))"

text \<open>
  \<^verbatim>\<open>ReadCache\<close>: the loop over \<open>i < s.count\<close> rewrites the index and point fields of
  \<^verbatim>\<open>s.v[i]\<close> and leaves its weight \<^verbatim>\<open>u\<close> as it is.
\<close>

fun ReadCache_loop ::
  "SimplexCache \<Rightarrow> Shape \<Rightarrow> Transform \<Rightarrow> Shape \<Rightarrow> Transform \<Rightarrow> nat list \<Rightarrow> vertex array3
    \<Rightarrow> error + vertex array3" where
  "ReadCache_loop cache a xfa b xfb [] vs = Inr vs"
| "ReadCache_loop cache a xfa b xfb (i # is) vs =
     bindE (get3 vs i) (\<lambda>x.
     bindE (get3 (cindexA cache) i) (\<lambda>ia.
     bindE (get3 (cindexB cache) i) (\<lambda>ib.
     bindE (getVertex a ia) (\<lambda>pa.
     bindE (getVertex b ib) (\<lambda>pb.
     bindE (set3 vs i (x\<lparr>indexA := ia, indexB := ib, va := pa, vb := pb,
                          vp := Sub (Transform_Mul xfb pb) (Transform_Mul xfa pa)\<rparr>)) (\<lambda>vs'.
       ReadCache_loop cache a xfa b xfb is vs'))))))"

definition ReadCache ::
  "Simplex \<Rightarrow> SimplexCache \<Rightarrow> Shape \<Rightarrow> Transform \<Rightarrow> Shape \<Rightarrow> Transform \<Rightarrow> error + Simplex" where
  "ReadCache s cache a xfa b xfb =
     bindE (ReadCache_loop cache a xfa b xfb [0..<ccount cache] (v s)) (\<lambda>vs.
       let s1 = s\<lparr>count := ccount cache, v := vs\<rparr> in
       if count s1 > 1 then
         bindE (Metric s1) (\<lambda>mNew.
           let mOld = metric cache in
           if mNew < 0.5 * mOld \<or> 2 * mOld < mNew \<or> mNew < 0.0001
           then Inr (s1\<lparr>count := 0\<rparr>) else Inr s1)
       else Inr s1)"

fun WriteCache_loop ::
  "Simplex \<Rightarrow> nat list \<Rightarrow> SimplexCache \<Rightarrow> error + SimplexCache" where
  "WriteCache_loop s [] cache = Inr cache"
| "WriteCache_loop s (i # is) cache =
     bindE (get3 (v s) i) (\<lambda>x.
     bindE (set3 (cindexA cache) i (indexA x)) (\<lambda>ca.
     bindE (set3 (cindexB cache) i (indexB x)) (\<lambda>cb.
       WriteCache_loop s is (cache\<lparr>cindexA := ca, cindexB := cb\<rparr>))))"

definition WriteCache :: "Simplex \<Rightarrow> SimplexCache \<Rightarrow> error + SimplexCache" where
  "WriteCache s cache =
     bindE (Metric s) (\<lambda>m.
       WriteCache_loop s [0..<count s] (cache\<lparr>metric := m, ccount := count s\<rparr>))"

section \<open>Time of impact (toi.go)\<close>

datatype axis = axisPoints | axisFaceA | axisFaceB

record separation =
  kind :: axis
  shapeA :: Shape
  shapeB :: Shape
  saxis :: Point
  local :: Point

definition newSeparation :: "Shape \<Rightarrow> Shape \<Rightarrow> separation" where
  "newSeparation a b =
     \<lparr>kind = axisPoints, shapeA = a, shapeB = b, saxis = zero_Point, local = zero_Point\<rparr>"

definition init :: "separation \<Rightarrow> SimplexCache \<Rightarrow> Transform \<Rightarrow> Transform \<Rightarrow> error + separation" where
  "init s cache xfa xfb =
     (if ccount cache = 1 then
        bindE (getVertex (shapeA s) (el0 (cindexA cache))) (\<lambda>pointA.
        bindE (getVertex (shapeB s) (el0 (cindexB cache))) (\<lambda>pointB.
          Inr (s\<lparr>kind := axisPoints,
                 saxis := Normalize (Sub (Transform_Mul xfb pointB) (Transform_Mul xfa pointA))\<rparr>)))
      else if el0 (cindexA cache) = el1 (cindexA cache) then
        bindE (getVertex (shapeB s) (el0 (cindexB cache))) (\<lambda>pointB1.
        bindE (getVertex (shapeB s) (el1 (cindexB cache))) (\<lambda>pointB2.
          let ax = CrossPS (Normalize (Sub pointB2 pointB1)) 1;
              loc = Mul (Add pointB1 pointB2) 0.5;
              pointB = Transform_Mul xfb loc
          in bindE (getVertex (shapeA s) (el0 (cindexA cache))) (\<lambda>pointA.
               let pointA = Transform_Mul xfa pointA;
                   normal = Rotation_Mul (Rotation xfb) ax;
                   dist = Dot (Sub pointA pointB) normal
               in Inr (s\<lparr>kind := axisFaceB, local := loc,
                          saxis := (if dist < 0 then Neg ax else ax)\<rparr>))))
      else
        bindE (getVertex (shapeA s) (el0 (cindexA cache))) (\<lambda>pointA1.
        bindE (getVertex (shapeA s) (el1 (cindexA cache))) (\<lambda>pointA2.
          let ax = CrossPS (Normalize (Sub pointA2 pointA1)) 1;
              loc = Mul (Add pointA1 pointA2) 0.5;
              pointA = Transform_Mul xfa loc
          in bindE (getVertex (shapeB s) (el0 (cindexB cache))) (\<lambda>pointB.
               let pointB = Transform_Mul xfb pointB;
                   normal = Rotation_Mul (Rotation xfa) ax;
                   dist = Dot (Sub pointB pointA) normal
               in Inr (s\<lparr>kind := axisFaceA, local := loc,
                          saxis := (if dist < 0 then Neg ax else ax)\<rparr>)))))"

definition MinSeparation ::
  "separation \<Rightarrow> Transform \<Rightarrow> Transform \<Rightarrow> error + (int \<times> int \<times> real)" where
  "MinSeparation s xfa xfb =
     (case kind s of
        axisPoints \<Rightarrow>
          (let axisA = Rotation_MulT (Rotation xfa) (saxis s);
               axisB = Rotation_MulT (Rotation xfb) (Neg (saxis s))
           in bindE (getSupport (shapeA s) axisA) (\<lambda>ia.
              bindE (getVertex (shapeA s) ia) (\<lambda>pointA.
              bindE (getSupport (shapeB s) axisB) (\<lambda>ib.
              bindE (getVertex (shapeB s) ib) (\<lambda>pointB.
                Inr (ia, ib, Dot (Sub (Transform_Mul xfb pointB) (Transform_Mul xfa pointA))
                                 (saxis s)))))))
      | axisFaceA \<Rightarrow>
          (let normal = Rotation_Mul (Rotation xfa) (saxis s);
               axisB = Rotation_MulT (Rotation xfb) (Neg normal)
           in bindE (getSupport (shapeB s) axisB) (\<lambda>ib.
              bindE (getVertex (shapeB s) ib) (\<lambda>pointB.
                Inr (- 1, ib, Dot (Sub (Transform_Mul xfb pointB) (Transform_Mul xfa (local s)))
                                  normal))))
      | axisFaceB \<Rightarrow>
          (let normal = Rotation_Mul (Rotation xfb) (saxis s);
               axisA = Rotation_MulT (Rotation xfa) (Neg normal)
           in bindE (getSupport (shapeA s) axisA) (\<lambda>ia.
              bindE (getVertex (shapeA s) ia) (\<lambda>pointA.
                Inr (ia, - 1, Dot (Sub (Transform_Mul xfa pointA) (Transform_Mul xfb (local s)))
                                  normal)))))"

definition Evaluate ::
  "separation \<Rightarrow> int \<Rightarrow> Transform \<Rightarrow> int \<Rightarrow> Transform \<Rightarrow> error + real" where
  "Evaluate s ia xfa ib xfb =
     (case kind s of
        axisPoints \<Rightarrow>
          bindE (getVertex (shapeA s) ia) (\<lambda>pa.
          bindE (getVertex (shapeB s) ib) (\<lambda>pb.
            Inr (Dot (Sub (Transform_Mul xfb pb) (Transform_Mul xfa pa)) (saxis s))))
      | axisFaceA \<Rightarrow>
          (let normal = Rotation_Mul (Rotation xfa) (saxis s);
               pa = Transform_Mul xfa (local s)
           in bindE (getVertex (shapeB s) ib) (\<lambda>pb.
                Inr (Dot (Sub (Transform_Mul xfb pb) pa) normal)))
      | axisFaceB \<Rightarrow>
          (let normal = Rotation_Mul (Rotation xfb) (saxis s)
           in bindE (getVertex (shapeA s) ia) (\<lambda>pa.
                Inr (Dot (Sub (Transform_Mul xfa pa) (Transform_Mul xfb (local s))) normal))))"

definition target :: real where
  "target = 0.01"

definition tolerance :: real where
  "tolerance = 0.25 * 0.005"

text \<open>
  The root finder of \<^verbatim>\<open>TimeOfImpact\<close>: the loop over \<open>j\<close>, here over the list of the values
  of \<open>j\<close> still to come. It returns the value of \<open>t2\<close> when the loop is left.
\<close>

fun root_finder ::
  "separation \<Rightarrow> Sweep \<Rightarrow> Sweep \<Rightarrow> int \<Rightarrow> int \<Rightarrow> nat list \<Rightarrow> real \<Rightarrow> real \<Rightarrow> real \<Rightarrow> real \<Rightarrow> real
    \<Rightarrow> error + real" where
  "root_finder fcn sweepA sweepB ia ib [] a1 a2 s1 s2 t2 = Inr t2"
| "root_finder fcn sweepA sweepB ia ib (j # js) a1 a2 s1 s2 t2 =
     (let t = (if odd j then a1 + (target - s1) * (a2 - a1) / (s2 - s1)
               else 0.5 * (a1 + a2))
      in bindE (Evaluate fcn ia (GetTransform sweepA t) ib (GetTransform sweepB t)) (\<lambda>s.
           if \<bar>s - target\<bar> < tolerance then Inr t
           else if s > target then root_finder fcn sweepA sweepB ia ib js t a2 s s2 t2
           else root_finder fcn sweepA sweepB ia ib js a1 t s1 s t2))"

text \<open>
  How the inner loop of \<^verbatim>\<open>TimeOfImpact\<close> is left: by \<^verbatim>\<open>return 1.0\<close>, by \<^verbatim>\<open>break loop\<close>, or
  to the next round of the outer loop with the value of \<open>t1\<close> it has set.
\<close>

datatype inner_exit = Return real | BreakLoop | NextRound real

fun inner_loop ::
  "separation \<Rightarrow> Sweep \<Rightarrow> Sweep \<Rightarrow> nat list \<Rightarrow> real \<Rightarrow> real \<Rightarrow> error + inner_exit" where
  "inner_loop fcn sweepA sweepB [] t1 t2 = Inr (NextRound t1)"
| "inner_loop fcn sweepA sweepB (i # is) t1 t2 =
     bindE (MinSeparation fcn (GetTransform sweepA t2) (GetTransform sweepB t2)) (\<lambda>(ia, ib, s2).
       if s2 > target + tolerance then Inr (Return 1)
       else if s2 > target - tolerance then Inr (NextRound t2)
       else
         bindE (Evaluate fcn ia (GetTransform sweepA t1) ib (GetTransform sweepB t1)) (\<lambda>s1.
           if s1 < target - tolerance then Inr BreakLoop
           else if s1 \<le> target + tolerance then Inr BreakLoop
           else
             bindE (root_finder fcn sweepA sweepB ia ib [0..<50] t1 t2 s1 s2 t2) (\<lambda>t2'.
               inner_loop fcn sweepA sweepB is t1 t2')))"

text \<open>
  The outer loop of \<^verbatim>\<open>TimeOfImpact\<close> over the list of the values of \<open>i\<close> still to come. The
  first argument bounds the iterations of each call of \<^verbatim>\<open>GJK\<close>; \<open>None\<close> says that a call of
  \<^verbatim>\<open>GJK\<close> has not left its loop within this bound. The result is the returned time and the
  simplex of the caller as the function leaves it.
\<close>

fun outer_loop ::
  "nat \<Rightarrow> Shape \<Rightarrow> Sweep \<Rightarrow> Shape \<Rightarrow> Sweep \<Rightarrow> nat list \<Rightarrow> Simplex \<Rightarrow> SimplexCache \<Rightarrow> real
    \<Rightarrow> (error + real \<times> Simplex) option" where
  "outer_loop k a sweepA b sweepB [] simplex cache t1 = Some (Inr (t1, simplex))"
| "outer_loop k a sweepA b sweepB (i # is) simplex cache t1 =
     (let xfa = GetTransform sweepA t1; xfb = GetTransform sweepB t1 in
      case ReadCache simplex cache a xfa b xfb of
        Inl e \<Rightarrow> Some (Inl e)
      | Inr s1 \<Rightarrow>
         (case GJK k s1 a xfa b xfb of
            None \<Rightarrow> None
          | Some (Inl e) \<Rightarrow> Some (Inl e)
          | Some (Inr s2) \<Rightarrow>
             (case WriteCache s2 cache of
                Inl e \<Rightarrow> Some (Inl e)
              | Inr cache' \<Rightarrow>
                 (case ClosestPoint s2 of
                    Inl e \<Rightarrow> Some (Inl e)
                  | Inr cp \<Rightarrow>
                     let distance = Length cp in
                     if distance \<le> 0 then Some (Inr (0, s2))
                     else if distance < target + tolerance then Some (Inr (t1, s2))
                     else
                       (case init (newSeparation a b) cache' xfa xfb of
                          Inl e \<Rightarrow> Some (Inl e)
                        | Inr fcn \<Rightarrow>
                           (case inner_loop fcn sweepA sweepB [0..<20] t1 1 of
                              Inl e \<Rightarrow> Some (Inl e)
                            | Inr (Return x) \<Rightarrow> Some (Inr (x, s2))
                            | Inr BreakLoop \<Rightarrow> Some (Inr (t1, s2))
                            | Inr (NextRound t1') \<Rightarrow>
                                outer_loop k a sweepA b sweepB is s2 cache' t1'))))))"

definition TimeOfImpact ::
  "nat \<Rightarrow> Simplex \<Rightarrow> Shape \<Rightarrow> Sweep \<Rightarrow> Shape \<Rightarrow> Sweep \<Rightarrow> (error + real \<times> Simplex) option" where
  "TimeOfImpact k simplex a sweepA b sweepB =
     outer_loop k a sweepA b sweepB [0..<100] simplex zero_SimplexCache 0"

section \<open>Inputs and predicates of the properties\<close>

definition is_Circle_or_Polygon :: "Shape \<Rightarrow> bool" where
  "is_Circle_or_Polygon s =
     (case s of CircleShape c \<Rightarrow> True | PolygonShape p \<Rightarrow> True | OtherShape gs gv \<Rightarrow> False)"

definition circle_00 :: Circle where
  "circle_00 = \<lparr>Center = \<lparr>X = 0, Y = 0\<rparr>, Radius = 1\<rparr>"


definition circle_half :: Circle where
  "circle_half = \<lparr>Center = \<lparr>X = 1 / 2, Y = 0\<rparr>, Radius = 1\<rparr>"

definition circle_10_small :: Circle where
  "circle_10_small = \<lparr>Center = \<lparr>X = 1, Y = 0\<rparr>, Radius = 1 / 4\<rparr>"

definition circle_01_small :: Circle where
  "circle_01_small = \<lparr>Center = \<lparr>X = 0, Y = 1\<rparr>, Radius = 1 / 4\<rparr>"

text \<open>The rotation by a quarter turn, \<^verbatim>\<open>Rotation{Sin: 1, Cos: 0}\<close>, without translation.\<close>

definition quarter_turn_xf :: Transform where
  "quarter_turn_xf = \<lparr>Position = \<lparr>X = 0, Y = 0\<rparr>, Rotation = \<lparr>Sin = 1, Cos = 0\<rparr>\<rparr>"


text \<open>
  The simplex that \<^verbatim>\<open>evolveTriangle\<close> receives in the third iteration of
  \<^verbatim>\<open>Distance\<close> for the polygon with the points \<open>(-1,-1)\<close>, \<open>(1,0)\<close>, \<open>(0,0)\<close> and the
  circle with the centre \<open>(0,1)\<close>, both under the identity transform.
\<close>

definition tri_region_C :: Simplex where
  "tri_region_C = \<lparr>count = 3, v =
     (\<lparr>va = \<lparr>X = - 1, Y = - 1\<rparr>, vb = \<lparr>X = 0, Y = 1\<rparr>, vp = \<lparr>X = 1, Y = 2\<rparr>,
       vu = 1 / 5, indexA = 0, indexB = 0\<rparr>,
      \<lparr>va = \<lparr>X = 1, Y = 0\<rparr>, vb = \<lparr>X = 0, Y = 1\<rparr>, vp = \<lparr>X = - 1, Y = 1\<rparr>,
       vu = 4 / 5, indexA = 1, indexB = 0\<rparr>,
      \<lparr>va = \<lparr>X = 0, Y = 0\<rparr>, vb = \<lparr>X = 0, Y = 1\<rparr>, vp = \<lparr>X = 0, Y = 1\<rparr>,
       vu = 1, indexA = 2, indexB = 0\<rparr>)\<rparr>"

definition tri_poly :: Polygon where
  "tri_poly = NewPolygon [\<lparr>X = - 1, Y = - 1\<rparr>, \<lparr>X = 1, Y = 0\<rparr>, \<lparr>X = 0, Y = 0\<rparr>]"

definition circle_01 :: Circle where
  "circle_01 = \<lparr>Center = \<lparr>X = 0, Y = 1\<rparr>, Radius = 1\<rparr>"




text \<open>\<^verbatim>\<open>Rect(0, 0, 1, 1)\<close>, and the translation by \<open>(1/2, 1/2)\<close>.\<close>

definition unit_square :: Polygon where
  "unit_square = Rectangle \<lparr>X = 0, Y = 0\<rparr> \<lparr>X = 1 / 2, Y = 1 / 2\<rparr>"

definition shift_xf :: Transform where
  "shift_xf = \<lparr>Position = \<lparr>X = 1 / 2, Y = 1 / 2\<rparr>, Rotation = \<lparr>Sin = 0, Cos = 1\<rparr>\<rparr>"

text \<open>
  Exchanging the roles of the two shapes in a simplex: the points on A and B and their
  indices change places, and the point of the Minkowski difference changes its sign.
\<close>

definition swap_vertex :: "vertex \<Rightarrow> vertex" where
  "swap_vertex x = \<lparr>va = vb x, vb = va x, vp = Neg (vp x), vu = vu x,
                    indexA = indexB x, indexB = indexA x\<rparr>"

definition swap_Simplex :: "Simplex \<Rightarrow> Simplex" where
  "swap_Simplex s = s\<lparr>v := (swap_vertex (el0 (v s)), swap_vertex (el1 (v s)), swap_vertex (el2 (v s)))\<rparr>"

text \<open>
  Two sweeps without rotation: one at rest at the origin, one moving from \<open>(3, 0)\<close> to the
  origin; the separation function along the x axis that \<^verbatim>\<open>TimeOfImpact\<close> builds for two
  circles centred at their local origins; and the simplex with the single point \<open>(x, 0)\<close>.
\<close>

definition sweep_rest :: Sweep where
  "sweep_rest = \<lparr>P0 = \<lparr>X = 0, Y = 0\<rparr>, P1 = \<lparr>X = 0, Y = 0\<rparr>, R0 = 0, R1 = 0\<rparr>"

definition sweep_approach :: Sweep where
  "sweep_approach = \<lparr>P0 = \<lparr>X = 3, Y = 0\<rparr>, P1 = \<lparr>X = 0, Y = 0\<rparr>, R0 = 0, R1 = 0\<rparr>"

definition sep_x :: separation where
  "sep_x = \<lparr>kind = axisPoints, shapeA = CircleShape circle_00, shapeB = CircleShape circle_00,
            saxis = \<lparr>X = 1, Y = 0\<rparr>, local = \<lparr>X = 0, Y = 0\<rparr>\<rparr>"

definition simplex_at :: "real \<Rightarrow> Simplex" where
  "simplex_at x = \<lparr>count = 1, v =
     (\<lparr>va = \<lparr>X = 0, Y = 0\<rparr>, vb = \<lparr>X = 0, Y = 0\<rparr>, vp = \<lparr>X = x, Y = 0\<rparr>, vu = 1,
       indexA = 0, indexB = 0\<rparr>, zero_vertex, zero_vertex)\<rparr>"

text \<open>
  The closest point that the line and triangle cases keep for an edge from \<open>p\<close> to \<open>q\<close>:
  \<open>p \<cdot> u + q \<cdot> v\<close> with the weights \<open>u\<close>, \<open>v\<close> that \<^verbatim>\<open>evolveLine\<close> and \<^verbatim>\<open>evolveTriangle\<close>
  store.
\<close>

definition proj_point :: "Point \<Rightarrow> Point \<Rightarrow> Point" where
  "proj_point p q =
     (let n = Sub q p; l = LengthSquared n
      in Add (Mul p (Dot q n / l)) (Mul q (Dot (Neg p) n / l)))"

text \<open>The local points that \<^verbatim>\<open>getVertex\<close> of a circle or polygon can return.\<close>

fun verts :: "Shape \<Rightarrow> Point set" where
  "verts (CircleShape c) = {Center c}"
| "verts (PolygonShape p) = set (Points p)"
| "verts (OtherShape gs gv) = {}"

text \<open>A circle, or a polygon with at least one vertex.\<close>

definition has_vertex :: "Shape \<Rightarrow> bool" where
  "has_vertex s =
     (case s of CircleShape c \<Rightarrow> True | PolygonShape p \<Rightarrow> Points p \<noteq> []
      | OtherShape gs gv \<Rightarrow> False)"

text \<open>The points \<open>xfB \<cdot> vB - xfA \<cdot> vA\<close> that a vertex of the simplex can carry.\<close>

definition Minkowski :: "Shape \<Rightarrow> Transform \<Rightarrow> Shape \<Rightarrow> Transform \<Rightarrow> Point set" where
  "Minkowski a xfa b xfb =
     (\<lambda>(pa, pb). Sub (Transform_Mul xfb pb) (Transform_Mul xfa pa)) ` (verts a \<times> verts b)"

text \<open>The origin projects into the inside of the edge from \<open>p\<close> to \<open>q\<close> (region AB).\<close>

definition edge_ok :: "Point \<Rightarrow> Point \<Rightarrow> bool" where
  "edge_ok p q = (0 < Dot q (Sub q p) \<and> 0 < Dot (Neg p) (Sub q p))"

text \<open>
  The squared distance of the origin from the closest point of an evolved simplex of one or
  two vertices, the finitely many values it can take, and the number of these values below
  the current one: the measure that decreases from round to round of the loop of \<^verbatim>\<open>GJK\<close>.
\<close>

definition dist2 :: "Simplex \<Rightarrow> real" where
  "dist2 s =
     (if count s = 1 then LengthSquared (vp (el0 (v s)))
      else LengthSquared (proj_point (vp (el0 (v s))) (vp (el1 (v s)))))"

definition dist2_values :: "Point set \<Rightarrow> real set" where
  "dist2_values M = LengthSquared ` M \<union> (\<lambda>(p, q). LengthSquared (proj_point p q)) ` (M \<times> M)"

definition progress :: "Point set \<Rightarrow> Simplex \<Rightarrow> nat" where
  "progress M s = card {x \<in> dist2_values M. x < dist2 s}"

text \<open>
  What holds of the simplex after \<^verbatim>\<open>evolve\<close> (\<open>evolved\<close>) and at the head of the loop
  (\<open>pre_ok\<close>): the count is 1, 2 or 3 and the points of the vertices in use are in a given
  set \<open>M\<close>; an evolved edge has the origin projecting into its inside.
\<close>

definition evolved :: "Point set \<Rightarrow> Simplex \<Rightarrow> bool" where
  "evolved M s \<longleftrightarrow>
     (count s = 1 \<and> vp (el0 (v s)) \<in> M
      \<or> count s = 2 \<and> vp (el0 (v s)) \<in> M \<and> vp (el1 (v s)) \<in> M
          \<and> edge_ok (vp (el0 (v s))) (vp (el1 (v s)))
      \<or> count s = 3)"

definition pre_ok :: "Point set \<Rightarrow> Simplex \<Rightarrow> bool" where
  "pre_ok M s \<longleftrightarrow>
     (count s = 1 \<and> vp (el0 (v s)) \<in> M
      \<or> count s = 2 \<and> vp (el0 (v s)) \<in> M \<and> vp (el1 (v s)) \<in> M
      \<or> count s = 3 \<and> vp (el0 (v s)) \<in> M \<and> vp (el1 (v s)) \<in> M \<and> vp (el2 (v s)) \<in> M)"

text \<open>
  Predicates of the proof that the calls return: an index that \<^verbatim>\<open>getVertex\<close> accepts; a
  vertex of the simplex whose indices are accepted and whose point is the one they give
  under the two transforms; a simplex of one to three such vertices; a cache whose indices
  in use are accepted; and the indices that \<^verbatim>\<open>Evaluate\<close> reads for a separation function.
\<close>

definition valid_index :: "Shape \<Rightarrow> int \<Rightarrow> bool" where
  "valid_index a i = (case getVertex a i of Inl e \<Rightarrow> False | Inr p \<Rightarrow> True)"

definition vertex_ok :: "Shape \<Rightarrow> Transform \<Rightarrow> Shape \<Rightarrow> Transform \<Rightarrow> vertex \<Rightarrow> bool" where
  "vertex_ok a xfa b xfb x =
     (case getVertex a (indexA x) of
        Inl e \<Rightarrow> False
      | Inr pa \<Rightarrow>
          (case getVertex b (indexB x) of
             Inl e \<Rightarrow> False
           | Inr pb \<Rightarrow> vp x = Sub (Transform_Mul xfb pb) (Transform_Mul xfa pa)))"

definition simplex_ok :: "Shape \<Rightarrow> Transform \<Rightarrow> Shape \<Rightarrow> Transform \<Rightarrow> Simplex \<Rightarrow> bool" where
  "simplex_ok a xfa b xfb s \<longleftrightarrow>
     (count s = 1 \<and> vertex_ok a xfa b xfb (el0 (v s))
      \<or> count s = 2 \<and> vertex_ok a xfa b xfb (el0 (v s)) \<and> vertex_ok a xfa b xfb (el1 (v s))
      \<or> count s = 3 \<and> vertex_ok a xfa b xfb (el0 (v s)) \<and> vertex_ok a xfa b xfb (el1 (v s))
          \<and> vertex_ok a xfa b xfb (el2 (v s)))"

definition cache_ok :: "Shape \<Rightarrow> Shape \<Rightarrow> SimplexCache \<Rightarrow> bool" where
  "cache_ok a b c \<longleftrightarrow>
     (ccount c = 0
      \<or> ccount c = 1 \<and> valid_index a (el0 (cindexA c)) \<and> valid_index b (el0 (cindexB c))
      \<or> ccount c = 2 \<and> valid_index a (el0 (cindexA c)) \<and> valid_index b (el0 (cindexB c))
          \<and> valid_index a (el1 (cindexA c)) \<and> valid_index b (el1 (cindexB c))
      \<or> ccount c = 3 \<and> valid_index a (el0 (cindexA c)) \<and> valid_index b (el0 (cindexB c))
          \<and> valid_index a (el1 (cindexA c)) \<and> valid_index b (el1 (cindexB c))
          \<and> valid_index a (el2 (cindexA c)) \<and> valid_index b (el2 (cindexB c)))"

definition witness_ok :: "separation \<Rightarrow> int \<Rightarrow> int \<Rightarrow> bool" where
  "witness_ok fcn ia ib =
     (case kind fcn of
        axisPoints \<Rightarrow> valid_index (shapeA fcn) ia \<and> valid_index (shapeB fcn) ib
      | axisFaceA \<Rightarrow> valid_index (shapeB fcn) ib
      | axisFaceB \<Rightarrow> valid_index (shapeA fcn) ia)"

section \<open>Properties\<close>

subsection \<open>Shapes of another dynamic type\<close>

text \<open>
  C9. When the dynamic type of either shape is neither \<^verbatim>\<open>*Circle\<close> nor \<^verbatim>\<open>*Polygon\<close>,
  \<^verbatim>\<open>Collide\<close> returns \<^verbatim>\<open>nil\<close>, whatever the other shape and the two transforms are.
\<close>

theorem Collide_other_shape:
  "\<not> is_Circle_or_Polygon a \<or> \<not> is_Circle_or_Polygon b \<Longrightarrow> Collide a xfa b xfb = Inr None"
  by (cases a; cases b) (simp_all add: is_Circle_or_Polygon_def)

theorem Collide_other_shape_witness:
  "\<not> is_Circle_or_Polygon (OtherShape (\<lambda>d. Inr 0) (\<lambda>i. Inr zero_Point))
   \<and> Collide (OtherShape (\<lambda>d. Inr 0) (\<lambda>i. Inr zero_Point)) identity_xf
         (CircleShape circle_00) identity_xf = Inr None"
  using Collide_other_shape [of "OtherShape (\<lambda>d. Inr 0) (\<lambda>i. Inr zero_Point)"
      "CircleShape circle_00" identity_xf identity_xf]
  by (simp add: is_Circle_or_Polygon_def)

subsection \<open>Clipping\<close>

lemma clip_conditions: "\<not> (d1 \<le> 0 \<and> d2 \<le> 0 \<and> d1 * d2 < (0::real))"
  by (auto simp: mult_less_0_iff)

text \<open>
  C8. In \<^verbatim>\<open>clip\<close>, for every plane \<open>(n, c)\<close> and every segment of two points, the three
  conditions under which the function writes (\<open>d1 \<le> 0\<close>, \<open>d2 \<le> 0\<close>, \<open>d1 * d2 < 0\<close>) never
  hold together; so no write to the two-element array \<^verbatim>\<open>out\<close> is out of bounds (the
  function does not panic), and the count it returns is 0, 1 or 2.
\<close>

theorem clip_in_bounds:
  assumes "length edge = 2"
  shows "\<not> (Dot n (edge ! 0) - c \<le> 0 \<and> Dot n (edge ! 1) - c \<le> 0
            \<and> (Dot n (edge ! 0) - c) * (Dot n (edge ! 1) - c) < 0)
         \<and> (\<exists>sp edge'. clip n c edge = Inr (sp, edge') \<and> sp \<in> {0, 1, 2} \<and> length edge' = 2)"
proof -
  obtain e0 e1 where e: "edge = [e0, e1]"
    using assms by (cases edge; cases "tl edge") auto
  let ?d1 = "Dot n e0 - c" and ?d2 = "Dot n e1 - c"
  have c: "\<not> (?d1 \<le> 0 \<and> ?d2 \<le> 0 \<and> ?d1 * ?d2 < 0)"
    by (rule clip_conditions)
  show ?thesis
    using c unfolding e
    by (auto simp: clip_def index_def out_write_def Let_def)
qed

theorem clip_in_bounds_witness:
  "length [\<lparr>X = 0, Y = 0\<rparr>, \<lparr>X = 2, Y = 0\<rparr>] = 2
   \<and> clip \<lparr>X = 1, Y = 0\<rparr> 1 [\<lparr>X = 0, Y = 0\<rparr>, \<lparr>X = 2, Y = 0\<rparr>]
       = Inr (2, [\<lparr>X = 0, Y = 0\<rparr>, \<lparr>X = 1, Y = 0\<rparr>])"
  using clip_in_bounds [of "[\<lparr>X = 0, Y = 0\<rparr>, \<lparr>X = 2, Y = 0\<rparr>]" "\<lparr>X = 1, Y = 0\<rparr>" 1]
  by (simp add: clip_def index_def out_write_def Let_def Dot_def Add_def Sub_def Mul_def)

subsection \<open>Two circles\<close>

text \<open>
  C2. The claim: the normal that \<^verbatim>\<open>CollideCircles\<close> returns for distinct centres is the unit
  vector \<open>n/|n|\<close>. The code divides \<open>n\<close> by the squared length: for two circles of radius
  1 with the centres \<open>(0,0)\<close> and \<open>(1/2,0)\<close> under the identity transform, where \<open>n/|n|\<close> is
  \<open>(1,0)\<close>, it returns the normal \<open>(2,0)\<close>. The depth, \<open>1/2 - 2\<close>, is as the claim says.
\<close>

theorem CollideCircles_normal_not_unit:
  "CollideCircles circle_00 identity_xf circle_half identity_xf
     = Some \<lparr>Normal = \<lparr>X = 2, Y = 0\<rparr>, Depth = - 3 / 2\<rparr>"
  by (simp add: CollideCircles_def circle_00_def circle_half_def identity_xf_def Add_def Sub_def
      Div_def LengthSquared_def Let_def real_sqrt_divide)

text \<open>
  The claim also takes the centres as \<open>xfA \<cdot> A.center\<close> and \<open>xfB \<cdot> B.center\<close>. The code adds
  the position of the transform to the centre and does not rotate: two small circles whose
  transformed centres coincide are reported as not colliding.
\<close>

lemma CollideCircles_ignores_rotation:
  "Transform_Mul quarter_turn_xf (Center circle_10_small)
     = Transform_Mul identity_xf (Center circle_01_small)
   \<and> CollideCircles circle_10_small quarter_turn_xf circle_01_small identity_xf = None"
  by (simp add: CollideCircles_def circle_10_small_def circle_01_small_def identity_xf_def
      quarter_turn_xf_def Transform_Mul_def Rotation_Mul_def Add_def Sub_def
      LengthSquared_def Let_def)

subsection \<open>The triangle case of the simplex\<close>

lemma evolveTriangle_region_C_value:
  "evolveTriangle tri_region_C = \<lparr>count = 1, v =
     ((el2 (v tri_region_C))\<lparr>vu := - 1\<rparr>,
      (el1 (v tri_region_C))\<lparr>vu := - 1\<rparr>,
      (el2 (v tri_region_C))\<lparr>vu := 3\<rparr>)\<rparr>"
  by (simp add: evolveTriangle_def tri_region_C_def el0_def el1_def el2_def Let_def
      Dot_def Sub_def Neg_def Cross_def LengthSquared_def)

text \<open>
  C5. The claim: when the origin is in the region of vertex C (\<open>uBC \<le> 0\<close> and \<open>vCA \<le> 0\<close>),
  \<^verbatim>\<open>evolveTriangle\<close> returns with \<open>count = 1\<close> and \<open>v[0]\<close> the former vertex C, and changes
  nothing else. The code has no \<^verbatim>\<open>return\<close> there: on the simplex \<open>tri_region_C\<close>, whose
  points are \<open>(1,2)\<close>, \<open>(-1,1)\<close>, \<open>(0,1)\<close>, it goes on to the last case and overwrites the
  weights, so that \<open>v[0]\<close> is vertex C with the weight \<open>-1\<close> instead of 1, and the weights of
  \<open>v[1]\<close> and \<open>v[2]\<close> become \<open>-1\<close> and 3.
\<close>

theorem evolveTriangle_region_C_falls_through:
  "Dot (vp (el2 (v tri_region_C))) (Sub (vp (el2 (v tri_region_C))) (vp (el1 (v tri_region_C)))) \<le> 0
   \<and> Dot (Neg (vp (el2 (v tri_region_C))))
         (Sub (vp (el0 (v tri_region_C))) (vp (el2 (v tri_region_C)))) \<le> 0
   \<and> evolveTriangle tri_region_C = \<lparr>count = 1, v =
        ((el2 (v tri_region_C))\<lparr>vu := - 1\<rparr>,
         (el1 (v tri_region_C))\<lparr>vu := - 1\<rparr>,
         (el2 (v tri_region_C))\<lparr>vu := 3\<rparr>)\<rparr>
   \<and> evolveTriangle tri_region_C
       \<noteq> \<lparr>count = 1, v = (el2 (v tri_region_C), el1 (v tri_region_C), el2 (v tri_region_C))\<rparr>"
  by (simp add: evolveTriangle_region_C_value)
     (simp add: tri_region_C_def el0_def el1_def el2_def Dot_def Sub_def Neg_def)

text \<open>The simplex \<open>tri_region_C\<close> is one that \<^verbatim>\<open>Distance\<close> reaches.\<close>

lemma tri_poly_Points:
  "Points tri_poly = [\<lparr>X = - 1, Y = - 1\<rparr>, \<lparr>X = 1, Y = 0\<rparr>, \<lparr>X = 0, Y = 0\<rparr>]"
  by (simp add: tri_poly_def NewPolygon_def)

lemmas point_ops = Add_def Sub_def Mul_def Div_def Neg_def Dot_def Cross_def CrossPS_def
  CrossSP_def LengthSquared_def Length_def Rotation_Mul_def Rotation_MulT_def
  Transform_Mul_def Transform_MulT_def

lemmas array3_ops = el0_def el1_def el2_def get3_def set3_def

lemmas GJK_run = GJK_def zero_Simplex_def zero_vertex_def zero_Point_def make_vertex_def
  index_def identity_xf_def evolve_def evolveLine_def searchDirection_def new_support_def
  old_indices_def Polygon_getSupport_def Let_def point_ops array3_ops

lemma tri_region_C_reached:
  "GJK (Suc (Suc (Suc k))) zero_Simplex (PolygonShape tri_poly) identity_xf
       (CircleShape circle_01) identity_xf
   = GJK_loop (Suc k) (PolygonShape tri_poly) identity_xf (CircleShape circle_01) identity_xf
       tri_region_C"
  apply (simp add: GJK_run tri_poly_Points circle_01_def tri_region_C_def del: GJK_loop.simps)
  apply (subst GJK_loop.simps)
  apply (simp add: GJK_run tri_poly_Points del: GJK_loop.simps)
  apply (subst GJK_loop.simps)
  apply (simp add: GJK_run tri_poly_Points numeral_3_eq_3 del: GJK_loop.simps)
  done

subsection \<open>Distance of two circles\<close>



subsection \<open>Symmetry of the collision\<close>











text \<open>
  For a polygon with as many normals as points, as \<^verbatim>\<open>NewPolygon\<close> builds them,
  \<^verbatim>\<open>findMaxSeparation\<close> does not panic.
\<close>

lemma findMaxSeparation_loop_total:
  assumes "\<forall>i \<in> set is. i < length (Normals a) \<and> i < length (Points a)"
  shows "\<exists>e s. findMaxSeparation_loop a xfa b xfb is bestIndex maxSeparation = Inr (e, s)"
  using assms
  by (induction "is" arbitrary: bestIndex maxSeparation) (auto simp: index_def Let_def)

lemma findMaxSeparation_total:
  "length (Normals a) = length (Points a) \<Longrightarrow> \<exists>e s. findMaxSeparation a xfa b xfb = Inr (e, s)"
  unfolding findMaxSeparation_def by (rule findMaxSeparation_loop_total) simp





text \<open>
  Two polygons whose maximum separations are equal: the unit square and its copy moved by
  \<open>(1/2, 1/2)\<close>. Each call takes its own first argument as the reference polygon, and the
  two normals, \<open>(1, 0)\<close> and \<open>(0, -1)\<close>, are not negatives of each other.
\<close>

lemma unit_square_eq:
  "unit_square =
     \<lparr>Points = [\<lparr>X = - 1 / 2, Y = - 1 / 2\<rparr>, \<lparr>X = 1 / 2, Y = - 1 / 2\<rparr>,
                 \<lparr>X = 1 / 2, Y = 1 / 2\<rparr>, \<lparr>X = - 1 / 2, Y = 1 / 2\<rparr>],
       Normals = [\<lparr>X = 0, Y = - 1\<rparr>, \<lparr>X = 1, Y = 0\<rparr>, \<lparr>X = 0, Y = 1\<rparr>, \<lparr>X = - 1, Y = 0\<rparr>]\<rparr>"
  by (simp add: unit_square_def Rectangle_def NewPolygon_def NewPolygon_normal_def Normalize_def
      point_ops upt_rec Let_def)

lemma MaxFloat64_big: "2 < MaxFloat64"
proof -
  have "(2::real) ^ 971 * 2 \<le> 2 ^ 1024"
    by (simp add: power_increasing flip: power_Suc2)
  moreover have "(2::real) < 2 ^ 971"
    using power_strict_increasing [of 1 971 "2::real"] by simp
  ultimately show ?thesis
    unfolding MaxFloat64_def by linarith
qed

lemma findMaxSeparation_squares:
  "findMaxSeparation unit_square identity_xf unit_square shift_xf = Inr (1, - 1 / 2)"
  "findMaxSeparation unit_square shift_xf unit_square identity_xf = Inr (0, - 1 / 2)"
  using MaxFloat64_big
  by (simp_all add: findMaxSeparation_def unit_square_eq upt_rec index_def identity_xf_def
      shift_xf_def point_ops Let_def)

lemma CollidePolygons_reference_squares:
  "CollidePolygons_reference unit_square identity_xf unit_square shift_xf 1 False
     = Inr (Some \<lparr>Normal = \<lparr>X = 1, Y = 0\<rparr>, Depth = 1 / 2\<rparr>)"
  "CollidePolygons_reference unit_square shift_xf unit_square identity_xf 0 False
     = Inr (Some \<lparr>Normal = \<lparr>X = 0, Y = - 1\<rparr>, Depth = 1 / 2\<rparr>)"
  using MaxFloat64_big
  by (simp_all add: CollidePolygons_reference_def findIncidentEdge_def unit_square_eq index_def
      identity_xf_def shift_xf_def clip_def out_write_def Normalize_def point_ops Let_def)

lemma Collide_tied_squares:
  "Collide (PolygonShape unit_square) identity_xf (PolygonShape unit_square) shift_xf
     = Inr (Some \<lparr>Normal = \<lparr>X = 1, Y = 0\<rparr>, Depth = 1 / 2\<rparr>)"
  "Collide (PolygonShape unit_square) shift_xf (PolygonShape unit_square) identity_xf
     = Inr (Some \<lparr>Normal = \<lparr>X = 0, Y = - 1\<rparr>, Depth = 1 / 2\<rparr>)"
  by (simp_all add: CollidePolygons_def findMaxSeparation_squares
      CollidePolygons_reference_squares)

subsection \<open>Termination of the loop of GJK\<close>

lemma LengthSquared_decomp:
  "LengthSquared q = LengthSquared r + LengthSquared (Sub q r) + 2 * Dot r (Sub q r)"
  by (simp add: LengthSquared_def Sub_def Dot_def algebra_simps)

lemma LengthSquared_nonneg: "0 \<le> LengthSquared p"
  by (simp add: LengthSquared_def)

lemma closer_strict: "0 < Dot r (Sub q r) \<Longrightarrow> LengthSquared r < LengthSquared q"
  using LengthSquared_decomp [of q r] LengthSquared_nonneg [of "Sub q r"] by linarith

lemma closer_distinct:
  "0 \<le> Dot r (Sub q r) \<Longrightarrow> 0 < LengthSquared (Sub q r) \<Longrightarrow> LengthSquared r < LengthSquared q"
  using LengthSquared_decomp [of q r] by linarith

text \<open>Region B of a line: the new vertex is closer than the old one.\<close>

lemma line_region_B:
  assumes "Dot b (Sub b a) \<le> 0" "0 < Dot (Neg a) (Sub b a)"
  shows "LengthSquared b < LengthSquared a"
  using assms by (simp add: Dot_def Sub_def Neg_def LengthSquared_def algebra_simps)

lemma uv_sum: "Dot b (Sub b a) + Dot (Neg a) (Sub b a) = LengthSquared (Sub b a)"
  by (simp add: Dot_def Sub_def Neg_def LengthSquared_def algebra_simps)

lemma Dot_proj_point:
  assumes "LengthSquared (Sub q p) \<noteq> 0"
  shows "Dot (proj_point p q) r
         = (Dot q (Sub q p) * Dot p r + Dot (Neg p) (Sub q p) * Dot q r) / LengthSquared (Sub q p)"
  using assms
  by (simp add: proj_point_def Let_def Dot_def Add_def Mul_def field_simps)

lemma binet: "Dot p p * Dot q q - Dot p q * Dot p q = Cross p q * Cross p q"
  by (simp add: Dot_def Cross_def algebra_simps)

lemma proj_point_dots:
  assumes "LengthSquared (Sub q p) \<noteq> 0"
  shows "Dot (proj_point p q) p = Cross p q * Cross p q / LengthSquared (Sub q p)"
    and "Dot (proj_point p q) q = Cross p q * Cross p q / LengthSquared (Sub q p)"
proof -
  have "Dot q (Sub q p) * Dot p p + Dot (Neg p) (Sub q p) * Dot q p = Cross p q * Cross p q"
    by (simp add: Dot_def Cross_def Sub_def Neg_def algebra_simps)
  then show "Dot (proj_point p q) p = Cross p q * Cross p q / LengthSquared (Sub q p)"
    by (simp add: Dot_proj_point [OF assms])
  have "Dot q (Sub q p) * Dot p q + Dot (Neg p) (Sub q p) * Dot q q = Cross p q * Cross p q"
    by (simp add: Dot_def Cross_def Sub_def Neg_def algebra_simps)
  then show "Dot (proj_point p q) q = Cross p q * Cross p q / LengthSquared (Sub q p)"
    by (simp add: Dot_proj_point [OF assms])
qed

lemma Dot_right_comb:
  "Dot r (Add (Mul p s) (Mul q t)) = s * Dot r p + t * Dot r q"
  by (simp add: Dot_def Add_def Mul_def algebra_simps)

lemma Dot_Sub_right: "Dot r (Sub p q) = Dot r p - Dot r q"
  by (simp add: Dot_def Sub_def algebra_simps)

lemma LengthSquared_Dot: "LengthSquared p = Dot p p"
  by (simp add: LengthSquared_def Dot_def)

lemma Dot_commute: "Dot p q = Dot q p"
  by (simp add: Dot_def mult.commute)

lemma LengthSquared_proj_point:
  assumes "LengthSquared (Sub q p) \<noteq> 0"
  shows "LengthSquared (proj_point p q) = Cross p q * Cross p q / LengthSquared (Sub q p)"
proof -
  let ?l = "LengthSquared (Sub q p)" and ?c = "Cross p q * Cross p q"
  let ?u = "Dot q (Sub q p)" and ?v = "Dot (Neg p) (Sub q p)"
  have s: "?u + ?v = ?l" by (rule uv_sum)
  have "LengthSquared (proj_point p q)
        = ?u / ?l * Dot (proj_point p q) p + ?v / ?l * Dot (proj_point p q) q"
    unfolding LengthSquared_Dot [of "proj_point p q"]
    by (subst (2) proj_point_def) (simp add: Let_def Dot_right_comb)
  also have "\<dots> = (?u / ?l + ?v / ?l) * (?c / ?l)"
    by (simp add: proj_point_dots [OF assms] algebra_simps)
  also have "?u / ?l + ?v / ?l = 1"
    using s assms by (simp add: add_divide_distrib [symmetric])
  finally show ?thesis by simp
qed

lemma lagrange_line:
  "LengthSquared a * LengthSquared (Sub b a) - Cross a b * Cross a b
   = Dot (Neg a) (Sub b a) * Dot (Neg a) (Sub b a)"
  by (simp add: LengthSquared_def Cross_def Dot_def Sub_def Neg_def algebra_simps)

text \<open>Region AB of a line: the projection is closer than the old vertex.\<close>

lemma line_region_AB:
  assumes "0 < Dot b (Sub b a)" "0 < Dot (Neg a) (Sub b a)"
  shows "LengthSquared (proj_point a b) < LengthSquared a"
proof -
  let ?l = "LengthSquared (Sub b a)" and ?v = "Dot (Neg a) (Sub b a)"
  have l: "0 < ?l" using uv_sum [of b a] assms by linarith
  have "LengthSquared a * ?l - Cross a b * Cross a b = ?v * ?v" by (rule lagrange_line)
  then have "Cross a b * Cross a b = LengthSquared a * ?l - ?v * ?v" by simp
  then have "LengthSquared (proj_point a b) = LengthSquared a - ?v * ?v / ?l"
    using l by (simp add: LengthSquared_proj_point diff_divide_distrib)
  moreover have "0 < ?v * ?v / ?l" using assms(2) l by simp
  ultimately show ?thesis by linarith
qed

lemma proj_point_comb:
  assumes "LengthSquared (Sub b a) \<noteq> 0"
  shows "Dot r (proj_point a b)
         = (Dot b (Sub b a) / LengthSquared (Sub b a)) * Dot r a
           + (Dot (Neg a) (Sub b a) / LengthSquared (Sub b a)) * Dot r b"
  by (simp add: proj_point_def Let_def Dot_right_comb)

lemma coeff_sum:
  assumes "LengthSquared (Sub b a) \<noteq> 0"
  shows "Dot b (Sub b a) / LengthSquared (Sub b a)
         + Dot (Neg a) (Sub b a) / LengthSquared (Sub b a) = 1"
  using uv_sum [of b a] assms by (simp add: add_divide_distrib [symmetric])

lemma Dot_proj_third_BC:
  "Dot c (Sub c b) * Dot b a + Dot (Neg b) (Sub c b) * Dot c a - Cross b c * Cross b c
   = - (Cross b c * Cross (Sub b a) (Sub c a))"
  by (simp add: Dot_def Cross_def Sub_def Neg_def algebra_simps)

lemma Dot_proj_third_CA:
  "Dot a (Sub a c) * Dot c b + Dot (Neg c) (Sub a c) * Dot a b - Cross c a * Cross c a
   = - (Cross c a * Cross (Sub b a) (Sub c a))"
  by (simp add: Dot_def Cross_def Sub_def Neg_def algebra_simps)

text \<open>
  The conditions under which the triangle case goes on from an edge AB that the previous
  round has kept: the origin projects into the edge, and it is strictly on the side of C.
\<close>

lemma triangle_region_BC:
  assumes ab: "0 < Dot b (Sub b a)" "0 < Dot (Neg a) (Sub b a)"
    and w: "0 < Cross a b * Cross (Sub b a) (Sub c a)"
    and bc: "0 < Dot c (Sub c b)" "0 < Dot (Neg b) (Sub c b)"
    and u: "Cross b c * Cross (Sub b a) (Sub c a) \<le> 0"
  shows "LengthSquared (proj_point b c) < LengthSquared (proj_point a b)"
proof -
  let ?lab = "LengthSquared (Sub b a)" and ?lbc = "LengthSquared (Sub c b)"
  let ?area = "Cross (Sub b a) (Sub c a)"
  let ?q = "proj_point a b" and ?r = "proj_point b c"
  let ?al = "Dot b (Sub b a) / ?lab" and ?be = "Dot (Neg a) (Sub b a) / ?lab"
  have lab: "0 < ?lab" using uv_sum [of b a] ab by linarith
  have lbc: "0 < ?lbc" using uv_sum [of c b] bc by linarith
  have al: "0 < ?al" using ab(1) lab by simp
  have rr: "LengthSquared ?r = Cross b c * Cross b c / ?lbc"
    using lbc by (simp add: LengthSquared_proj_point)
  have rb: "Dot ?r b = Cross b c * Cross b c / ?lbc"
    using lbc by (simp add: proj_point_dots)
  have "Dot ?r a = (Dot c (Sub c b) * Dot b a + Dot (Neg b) (Sub c b) * Dot c a) / ?lbc"
    using lbc by (simp add: Dot_proj_point)
  also have "\<dots> = (Cross b c * Cross b c - Cross b c * ?area) / ?lbc"
    using Dot_proj_third_BC [of c b a] by (simp add: algebra_simps)
  finally have ra: "Dot ?r a = Cross b c * Cross b c / ?lbc - Cross b c * ?area / ?lbc"
    by (simp add: diff_divide_distrib)
  have "Dot ?r (Sub ?q ?r) = ?al * Dot ?r a + ?be * Dot ?r b - Dot ?r ?r"
    using lab by (simp add: Dot_Sub_right proj_point_comb)
  also have "\<dots> = ?al * Dot ?r a + ?be * Dot ?r b - (?al + ?be) * LengthSquared ?r"
    using coeff_sum [of b a] lab by (simp add: LengthSquared_Dot)
  also have "\<dots> = ?al * (- (Cross b c * ?area) / ?lbc)"
    by (simp add: ra rb rr algebra_simps)
  finally have d: "Dot ?r (Sub ?q ?r) = ?al * (- (Cross b c * ?area) / ?lbc)" .
  show ?thesis
  proof (cases "Cross b c * ?area < 0")
    case True
    then have "0 < - (Cross b c * ?area) / ?lbc" using lbc by (intro divide_pos_pos) simp_all
    then have "0 < Dot ?r (Sub ?q ?r)" unfolding d using al by (rule mult_pos_pos [rotated])
    then show ?thesis by (rule closer_strict)
  next
    case False
    then have "Cross b c * ?area = 0" using u by simp
    moreover have "?area \<noteq> 0" using w by auto
    ultimately have "Cross b c = 0" by simp
    then have "LengthSquared ?r = 0" by (simp add: rr)
    moreover have "Cross a b \<noteq> 0" using w by auto
    then have "0 < Cross a b * Cross a b / ?lab"
      using lab by (auto simp: zero_less_divide_iff zero_less_mult_iff)
    then have "0 < LengthSquared ?q" using lab by (simp add: LengthSquared_proj_point)
    ultimately show ?thesis by simp
  qed
qed

lemma triangle_region_CA:
  assumes ab: "0 < Dot b (Sub b a)" "0 < Dot (Neg a) (Sub b a)"
    and w: "0 < Cross a b * Cross (Sub b a) (Sub c a)"
    and ca: "0 < Dot a (Sub a c)" "0 < Dot (Neg c) (Sub a c)"
    and u: "Cross c a * Cross (Sub b a) (Sub c a) \<le> 0"
  shows "LengthSquared (proj_point c a) < LengthSquared (proj_point a b)"
proof -
  let ?lab = "LengthSquared (Sub b a)" and ?lca = "LengthSquared (Sub a c)"
  let ?area = "Cross (Sub b a) (Sub c a)"
  let ?q = "proj_point a b" and ?r = "proj_point c a"
  let ?al = "Dot b (Sub b a) / ?lab" and ?be = "Dot (Neg a) (Sub b a) / ?lab"
  have lab: "0 < ?lab" using uv_sum [of b a] ab by linarith
  have lca: "0 < ?lca" using uv_sum [of a c] ca by linarith
  have be: "0 < ?be" using ab(2) lab by simp
  have rr: "LengthSquared ?r = Cross c a * Cross c a / ?lca"
    using lca by (simp add: LengthSquared_proj_point)
  have ra: "Dot ?r a = Cross c a * Cross c a / ?lca"
    using lca by (simp add: proj_point_dots)
  have "Dot ?r b = (Dot a (Sub a c) * Dot c b + Dot (Neg c) (Sub a c) * Dot a b) / ?lca"
    using lca by (simp add: Dot_proj_point)
  also have "\<dots> = (Cross c a * Cross c a - Cross c a * ?area) / ?lca"
    using Dot_proj_third_CA [of a c b] by (simp add: algebra_simps)
  finally have rb: "Dot ?r b = Cross c a * Cross c a / ?lca - Cross c a * ?area / ?lca"
    by (simp add: diff_divide_distrib)
  have "Dot ?r (Sub ?q ?r) = ?al * Dot ?r a + ?be * Dot ?r b - Dot ?r ?r"
    using lab by (simp add: Dot_Sub_right proj_point_comb)
  also have "\<dots> = ?al * Dot ?r a + ?be * Dot ?r b - (?al + ?be) * LengthSquared ?r"
    using coeff_sum [of b a] lab by (simp add: LengthSquared_Dot)
  also have "\<dots> = ?be * (- (Cross c a * ?area) / ?lca)"
    by (simp add: ra rb rr algebra_simps)
  finally have d: "Dot ?r (Sub ?q ?r) = ?be * (- (Cross c a * ?area) / ?lca)" .
  show ?thesis
  proof (cases "Cross c a * ?area < 0")
    case True
    then have "0 < - (Cross c a * ?area) / ?lca" using lca by (intro divide_pos_pos) simp_all
    then have "0 < Dot ?r (Sub ?q ?r)" unfolding d using be by (rule mult_pos_pos [rotated])
    then show ?thesis by (rule closer_strict)
  next
    case False
    then have "Cross c a * ?area = 0" using u by simp
    moreover have "?area \<noteq> 0" using w by auto
    ultimately have "Cross c a = 0" by simp
    then have "LengthSquared ?r = 0" by (simp add: rr)
    moreover have "Cross a b \<noteq> 0" using w by auto
    then have "0 < Cross a b * Cross a b / ?lab"
      using lab by (auto simp: zero_less_divide_iff zero_less_mult_iff)
    then have "0 < LengthSquared ?q" using lab by (simp add: LengthSquared_proj_point)
    ultimately show ?thesis by simp
  qed
qed

lemma Cross_proj_point:
  assumes "LengthSquared (Sub b a) \<noteq> 0"
  shows "Cross (Sub b a) (Sub (proj_point a b) c) = - Cross (Sub b a) (Sub c a)"
proof -
  define al where "al = Dot b (Sub b a) / LengthSquared (Sub b a)"
  define be where "be = Dot (Neg a) (Sub b a) / LengthSquared (Sub b a)"
  have s: "al = 1 - be" using coeff_sum [OF assms] by (simp add: al_def be_def)
  have "proj_point a b = Add (Mul a al) (Mul b be)"
    by (simp add: proj_point_def Let_def al_def be_def)
  then have "proj_point a b = Add (Mul a (1 - be)) (Mul b be)"
    using s by simp
  then show ?thesis
    by (simp add: Cross_def Sub_def Add_def Mul_def algebra_simps)
qed

lemma LengthSquared_zero: "LengthSquared p = 0 \<longleftrightarrow> X p = 0 \<and> Y p = 0"
  by (simp add: LengthSquared_def sum_power2_eq_zero_iff flip: power2_eq_square)

lemma triangle_region_C:
  assumes ab: "0 < Dot b (Sub b a)" "0 < Dot (Neg a) (Sub b a)"
    and w: "0 < Cross a b * Cross (Sub b a) (Sub c a)"
    and c: "Dot c (Sub c b) \<le> 0" "Dot (Neg c) (Sub a c) \<le> 0"
  shows "LengthSquared c < LengthSquared (proj_point a b)"
proof -
  let ?lab = "LengthSquared (Sub b a)"
  let ?q = "proj_point a b"
  define al where "al = Dot b (Sub b a) / ?lab"
  define be where "be = Dot (Neg a) (Sub b a) / ?lab"
  have lab: "0 < ?lab" using uv_sum [of b a] ab by linarith
  have al: "0 < al" and be: "0 < be" using ab lab by (simp_all add: al_def be_def)
  have s: "al + be = 1" using coeff_sum [of b a] lab by (simp add: al_def be_def)
  have ca: "0 \<le> Dot c a - Dot c c" using c(2) by (simp add: Dot_def Sub_def Neg_def algebra_simps)
  have cb: "0 \<le> Dot c b - Dot c c" using c(1) by (simp add: Dot_def Sub_def algebra_simps)
  have "Dot c (Sub ?q c) = al * Dot c a + be * Dot c b - 1 * Dot c c"
    using lab by (simp add: Dot_Sub_right proj_point_comb al_def be_def)
  also have "\<dots> = al * Dot c a + be * Dot c b - (al + be) * Dot c c"
    by (simp only: s)
  also have "\<dots> = al * (Dot c a - Dot c c) + be * (Dot c b - Dot c c)"
    by (simp add: algebra_simps)
  finally have "0 \<le> Dot c (Sub ?q c)"
    using al be ca cb by simp
  moreover have "0 < LengthSquared (Sub ?q c)"
  proof -
    have "Cross (Sub b a) (Sub ?q c) \<noteq> 0"
      using Cross_proj_point [of b a c] lab w by auto
    then have "\<not> (X (Sub ?q c) = 0 \<and> Y (Sub ?q c) = 0)"
      by (auto simp: Cross_def)
    then have "LengthSquared (Sub ?q c) \<noteq> 0" by (simp add: LengthSquared_zero)
    then show ?thesis using LengthSquared_nonneg [of "Sub ?q c"] by linarith
  qed
  ultimately show ?thesis by (rule closer_distinct)
qed

lemma Simplex_cases3:
  obtains n a b c where "s = \<lparr>count = n, v = (a, b, c)\<rparr>"
  by (cases s) (metis old.unit.exhaust prod_cases3)

lemmas el_defs = el0_def el1_def el2_def

lemma evolveLine_result:
  assumes "count s = 2" "vp (el0 (v s)) \<in> M" "vp (el1 (v s)) \<in> M"
  shows "evolved M (evolveLine s)
         \<and> (count (evolveLine s) = 1 \<and> vp (el0 (v (evolveLine s))) = vp (el0 (v s))
            \<or> count (evolveLine s) \<noteq> 3
               \<and> dist2 (evolveLine s) < LengthSquared (vp (el0 (v s))))"
proof (cases s rule: Simplex_cases3)
  case (1 n a b c)
  let ?u = "Dot (vp b) (Sub (vp b) (vp a))" and ?w = "Dot (Neg (vp a)) (Sub (vp b) (vp a))"
  have m: "vp a \<in> M" "vp b \<in> M" using assms 1 by (simp_all add: el_defs)
  show ?thesis
  proof (cases "?w \<le> 0")
    case True
    then show ?thesis
      using 1 m by (simp add: evolveLine_def el_defs evolved_def Let_def)
  next
    case w: False
    show ?thesis
    proof (cases "?u \<le> 0")
      case True
      then have "LengthSquared (vp b) < LengthSquared (vp a)"
        using w line_region_B [of "vp b" "vp a"] by simp
      then show ?thesis
        using 1 m w True by (simp add: evolveLine_def el_defs evolved_def dist2_def Let_def)
    next
      case False
      then have "LengthSquared (proj_point (vp a) (vp b)) < LengthSquared (vp a)"
        using w line_region_AB [of "vp b" "vp a"] by simp
      then show ?thesis
        using 1 m w False assms(1)
        by (simp add: evolveLine_def el_defs evolved_def dist2_def edge_ok_def Let_def)
    qed
  qed
qed

lemma evolveTriangle_flat:
  "evolveTriangle \<lparr>count = n, v = (a, b, c)\<rparr> =
     (let pa = vp a; pb = vp b; pc = vp c;
          uAB = Dot pb (Sub pb pa); vAB = Dot (Neg pa) (Sub pb pa);
          uBC = Dot pc (Sub pc pb); vBC = Dot (Neg pb) (Sub pc pb);
          uCA = Dot pa (Sub pa pc); vCA = Dot (Neg pc) (Sub pa pc);
          area = Cross (Sub pb pa) (Sub pc pa);
          uABC = Cross pb pc * area; vABC = Cross pc pa * area; wABC = Cross pa pb * area;
          d = uABC + vABC + wABC
      in if vAB \<le> 0 \<and> uCA \<le> 0 then \<lparr>count = 1, v = (a, b, c)\<rparr>
         else if uAB \<le> 0 \<and> vBC \<le> 0 then \<lparr>count = 1, v = (b, b, c)\<rparr>
         else if uAB > 0 \<and> vAB > 0 \<and> wABC \<le> 0 then
           \<lparr>count = 2, v = (a\<lparr>vu := uAB / LengthSquared (Sub pb pa)\<rparr>,
                           b\<lparr>vu := vAB / LengthSquared (Sub pb pa)\<rparr>, c)\<rparr>
         else if uBC > 0 \<and> vBC > 0 \<and> uABC \<le> 0 then
           \<lparr>count = 2, v = (b\<lparr>vu := uBC / LengthSquared (Sub pc pb)\<rparr>,
                           c\<lparr>vu := vBC / LengthSquared (Sub pc pb)\<rparr>, c)\<rparr>
         else if uCA > 0 \<and> vCA > 0 \<and> vABC \<le> 0 then
           \<lparr>count = 2, v = (c\<lparr>vu := uCA / LengthSquared (Sub pa pc)\<rparr>,
                           a\<lparr>vu := vCA / LengthSquared (Sub pa pc)\<rparr>, c)\<rparr>
         else if uBC \<le> 0 \<and> vCA \<le> 0 then
           \<lparr>count = 1, v = (c\<lparr>vu := uABC / d\<rparr>, b\<lparr>vu := vABC / d\<rparr>, c\<lparr>vu := wABC / d\<rparr>)\<rparr>
         else
           \<lparr>count = n, v = (a\<lparr>vu := uABC / d\<rparr>, b\<lparr>vu := vABC / d\<rparr>, c\<lparr>vu := wABC / d\<rparr>)\<rparr>)"
  by (simp add: evolveTriangle_def el_defs Let_def)

lemma evolveTriangle_evolved:
  assumes "count s = 3" "vp (el0 (v s)) \<in> M" "vp (el1 (v s)) \<in> M" "vp (el2 (v s)) \<in> M"
  shows "evolved M (evolveTriangle s)"
proof (cases s rule: Simplex_cases3)
  case (1 n a b c)
  have m: "vp a \<in> M" "vp b \<in> M" "vp c \<in> M" "n = 3" using assms 1 by (simp_all add: el_defs)
  show ?thesis
    unfolding 1 evolveTriangle_flat Let_def
    using m by (simp add: evolved_def el_defs edge_ok_def)
qed

lemma evolveTriangle_after_edge:
  assumes "count s = 3" "edge_ok (vp (el0 (v s))) (vp (el1 (v s)))"
  shows "count (evolveTriangle s) = 2
           \<and> vp (el0 (v (evolveTriangle s))) = vp (el0 (v s))
           \<and> vp (el1 (v (evolveTriangle s))) = vp (el1 (v s))
         \<or> count (evolveTriangle s) = 3
         \<or> count (evolveTriangle s) \<noteq> 3
            \<and> dist2 (evolveTriangle s)
                < LengthSquared (proj_point (vp (el0 (v s))) (vp (el1 (v s))))"
proof (cases s rule: Simplex_cases3)
  case (1 n a b c)
  let ?pa = "vp a" and ?pb = "vp b" and ?pc = "vp c"
  let ?area = "Cross (Sub ?pb ?pa) (Sub ?pc ?pa)"
  have n: "n = 3" using assms 1 by simp
  have ab: "0 < Dot ?pb (Sub ?pb ?pa)" "0 < Dot (Neg ?pa) (Sub ?pb ?pa)"
    using assms(2) 1 by (simp_all add: edge_ok_def el_defs)
  show ?thesis
  proof (cases "Cross ?pa ?pb * ?area \<le> 0")
    case True
    then show ?thesis
      unfolding 1 evolveTriangle_flat Let_def using ab by (simp add: el_defs)
  next
    case False
    then have w: "0 < Cross ?pa ?pb * ?area" by simp
    show ?thesis
    proof (cases "0 < Dot ?pc (Sub ?pc ?pb) \<and> 0 < Dot (Neg ?pb) (Sub ?pc ?pb)
                  \<and> Cross ?pb ?pc * ?area \<le> 0")
      case True
      then have "LengthSquared (proj_point ?pb ?pc) < LengthSquared (proj_point ?pa ?pb)"
        using triangle_region_BC [OF ab w] by simp
      then show ?thesis
        unfolding 1 evolveTriangle_flat Let_def using ab w True
        by (simp add: el_defs dist2_def)
    next
      case nbc: False
      show ?thesis
      proof (cases "0 < Dot ?pa (Sub ?pa ?pc) \<and> 0 < Dot (Neg ?pc) (Sub ?pa ?pc)
                    \<and> Cross ?pc ?pa * ?area \<le> 0")
        case True
        then have "LengthSquared (proj_point ?pc ?pa) < LengthSquared (proj_point ?pa ?pb)"
          using triangle_region_CA [OF ab w] by simp
        then show ?thesis
          unfolding 1 evolveTriangle_flat Let_def using ab w nbc True
          by (auto simp: el_defs dist2_def)
      next
        case nca: False
        show ?thesis
        proof (cases "Dot ?pc (Sub ?pc ?pb) \<le> 0 \<and> Dot (Neg ?pc) (Sub ?pa ?pc) \<le> 0")
          case True
          then have "LengthSquared ?pc < LengthSquared (proj_point ?pa ?pb)"
            using triangle_region_C [OF ab w] by simp
          then show ?thesis
            unfolding 1 evolveTriangle_flat Let_def using ab w nbc nca True
            by (auto simp: el_defs dist2_def)
        next
          case False
          then show ?thesis
            unfolding 1 evolveTriangle_flat Let_def using ab w nbc nca n
            by (auto simp: el_defs)
        qed
      qed
    qed
  qed
qed

lemma getSupport_loop_range:
  "0 \<le> idx \<Longrightarrow> idx < i
   \<Longrightarrow> 0 \<le> getSupport_loop dir ps i idx m \<and> getSupport_loop dir ps i idx m < i + int (length ps)"
proof (induction ps arbitrary: i idx m)
  case Nil
  then show ?case by simp
next
  case (Cons p ps)
  show ?case
    using Cons.IH [of i "i + 1" "Dot dir p"] Cons.IH [of idx "i + 1" m] Cons.prems
    by (auto simp: Let_def)
qed

lemma support_vertex:
  assumes "has_vertex a"
  shows "\<exists>i pa. getSupport a d = Inr i \<and> getVertex a i = Inr pa \<and> pa \<in> verts a"
proof (cases a)
  case (CircleShape c)
  then show ?thesis by simp
next
  case (PolygonShape p)
  then obtain p0 ps where ps: "Points p = p0 # ps"
    using assms by (cases "Points p") (auto simp: has_vertex_def)
  let ?i = "getSupport_loop d ps 1 0 (Dot d p0)"
  have r: "0 \<le> ?i \<and> ?i < 1 + int (length ps)"
    by (rule getSupport_loop_range) simp_all
  then have "nat ?i < length (Points p)" using ps by auto
  then have "Points p ! nat ?i \<in> set (Points p)" by (rule nth_mem)
  then show ?thesis
    using PolygonShape ps r by (simp add: Polygon_getSupport_def index_def)
next
  case (OtherShape gs gv)
  then show ?thesis using assms by (simp add: has_vertex_def)
qed

lemma first_vertex:
  assumes "has_vertex a"
  shows "\<exists>pa. getVertex a 0 = Inr pa \<and> pa \<in> verts a"
proof (cases a)
  case (CircleShape c)
  then show ?thesis by simp
next
  case (PolygonShape p)
  then have "Points p \<noteq> []" using assms by (simp add: has_vertex_def)
  then show ?thesis
    using PolygonShape by (cases "Points p") (simp_all add: index_def)
next
  case (OtherShape gs gv)
  then show ?thesis using assms by (simp add: has_vertex_def)
qed

lemma Minkowski_I:
  "pa \<in> verts a \<Longrightarrow> pb \<in> verts b
   \<Longrightarrow> Sub (Transform_Mul xfb pb) (Transform_Mul xfa pa) \<in> Minkowski a xfa b xfb"
  unfolding Minkowski_def by (rule image_eqI [where x = "(pa, pb)"]) simp_all

lemma new_support_ok:
  assumes "has_vertex a" "has_vertex b"
  shows "\<exists>w. new_support a xfa b xfb dir = Inr w \<and> vp w \<in> Minkowski a xfa b xfb"
proof -
  obtain ia pa where a: "getSupport a (Rotation_MulT (Rotation xfa) (Neg dir)) = Inr ia"
      "getVertex a ia = Inr pa" "pa \<in> verts a"
    using support_vertex [OF assms(1)] by blast
  obtain ib pb where b: "getSupport b (Rotation_MulT (Rotation xfb) dir) = Inr ib"
      "getVertex b ib = Inr pb" "pb \<in> verts b"
    using support_vertex [OF assms(2)] by blast
  show ?thesis
    using a b by (simp add: new_support_def make_vertex_def Minkowski_I)
qed

lemma make_vertex_first:
  assumes "has_vertex a" "has_vertex b"
  shows "\<exists>v0. make_vertex a xfa b xfb 0 0 = Inr v0 \<and> vp v0 \<in> Minkowski a xfa b xfb"
proof -
  obtain pa where a: "getVertex a 0 = Inr pa" "pa \<in> verts a"
    using first_vertex [OF assms(1)] by blast
  obtain pb where b: "getVertex b 0 = Inr pb" "pb \<in> verts b"
    using first_vertex [OF assms(2)] by blast
  show ?thesis
    using a b by (simp add: make_vertex_def Minkowski_I)
qed

lemma finite_verts: "finite (verts a)"
  by (cases a) simp_all

lemma finite_Minkowski: "finite (Minkowski a xfa b xfb)"
  unfolding Minkowski_def by (intro finite_imageI finite_cartesian_product finite_verts)

lemma finite_dist2_values: "finite M \<Longrightarrow> finite (dist2_values M)"
  unfolding dist2_values_def by (intro finite_UnI finite_imageI finite_cartesian_product)

lemma dist2_in_values:
  assumes "evolved M s" "count s \<noteq> 3"
  shows "dist2 s \<in> dist2_values M"
proof (cases "count s = 1")
  case True
  then show ?thesis using assms by (auto simp: evolved_def dist2_def dist2_values_def)
next
  case False
  then have "vp (el0 (v s)) \<in> M" "vp (el1 (v s)) \<in> M" "count s = 2"
    using assms by (auto simp: evolved_def)
  then have "(\<lambda>(p, q). LengthSquared (proj_point p q)) (vp (el0 (v s)), vp (el1 (v s)))
             \<in> (\<lambda>(p, q). LengthSquared (proj_point p q)) ` (M \<times> M)"
    by (intro imageI) simp
  then show ?thesis using False by (simp add: dist2_def dist2_values_def)
qed

lemma progress_less:
  assumes "finite M" "x \<in> dist2_values M" "x = dist2 s'" "dist2 s' < d"
  shows "card {y \<in> dist2_values M. y < dist2 s'} < card {y \<in> dist2_values M. y < d}"
proof (rule psubset_card_mono)
  show "finite {y \<in> dist2_values M. y < d}"
    using finite_dist2_values [OF assms(1)] by simp
  show "{y \<in> dist2_values M. y < dist2 s'} \<subset> {y \<in> dist2_values M. y < d}"
    using assms(2-4) by auto
qed

lemma evolve_evolved:
  assumes "pre_ok M s"
  shows "\<exists>s1. evolve s = Inr s1 \<and> evolved M s1"
  using assms evolveLine_result [of s M] evolveTriangle_evolved [of s M]
  by (auto simp: pre_ok_def evolve_def evolved_def)

lemma searchDirection_evolved:
  assumes "evolved M s" "count s \<noteq> 3"
  shows "\<exists>dir. searchDirection s = Inr dir"
  using assms by (auto simp: evolved_def searchDirection_def Let_def)

lemma searchDirection_cong:
  assumes "count s' = count s" "vp (el0 (v s')) = vp (el0 (v s))"
    "count s = 2 \<longrightarrow> vp (el1 (v s')) = vp (el1 (v s))"
  shows "searchDirection s' = searchDirection s"
  using assms by (auto simp: searchDirection_def Let_def)

text \<open>One more round from the state \<open>s2\<close> leaves the loop, when the simplex it evolves to asks
  for the support point that \<open>s2\<close> already holds.\<close>

lemma GJK_loop_exit_duplicate:
  assumes "count s2 \<le> 3" "evolve s2 = Inr s3" "count s3 \<noteq> 3"
    "searchDirection s3 = Inr dir" "new_support a xfa b xfb dir = Inr w"
    "(indexA w, indexB w) \<in> set (old_indices s2)"
  shows "GJK_loop (Suc k) a xfa b xfb s2 = Some (Inr s3)"
  using assms by simp

lemma old_indices_appended:
  "old_indices (s\<lparr>v := (x, w, z), count := 2\<rparr>) = [(indexA x, indexB x), (indexA w, indexB w)]"
  "old_indices (s\<lparr>v := (x, y, w), count := 3\<rparr>)
     = [(indexA x, indexB x), (indexA y, indexB y), (indexA w, indexB w)]"
  by (simp_all add: old_indices_def el_defs numeral_2_eq_2 numeral_3_eq_3)

lemma GJK_loop_terminates:
  assumes hv: "has_vertex a" "has_vertex b"
    and fin: "finite M" and M: "Minkowski a xfa b xfb \<subseteq> M"
    and pre: "pre_ok M s"
  shows "\<exists>k r. GJK_loop k a xfa b xfb s = Some (Inr r)"
  using pre
proof (induction "progress M (projr (evolve s))" arbitrary: s rule: less_induct)
  case less
  have c3: "count s \<le> 3" using less.prems by (auto simp: pre_ok_def)
  obtain s1 where e: "evolve s = Inr s1" and ev: "evolved M s1"
    using evolve_evolved [OF less.prems] by blast
  show ?case
  proof (cases "count s1 = 3")
    case True
    then have "GJK_loop (Suc 0) a xfa b xfb s = Some (Inr s1)"
      using c3 e by simp
    then show ?thesis by blast
  next
    case n3: False
    obtain dir where sd: "searchDirection s1 = Inr dir"
      using searchDirection_evolved [OF ev n3] by blast
    obtain w where ns: "new_support a xfa b xfb dir = Inr w" and wM: "vp w \<in> M"
      using new_support_ok [OF hv, of xfa xfb dir] M by blast
    show ?thesis
    proof (cases "LengthSquared dir = 0 \<or> (indexA w, indexB w) \<in> set (old_indices s)")
      case True
      then have "GJK_loop (Suc 0) a xfa b xfb s = Some (Inr s1)"
        using c3 e n3 sd ns by auto
      then show ?thesis by blast
    next
      case go: False
      consider (one) "count s1 = 1" | (two) "count s1 = 2"
        using ev n3 by (auto simp: evolved_def)
      then show ?thesis
      proof cases
        case one
        define s2 where "s2 = s1\<lparr>v := (el0 (v s1), w, el2 (v s1)), count := 2\<rparr>"
        have step: "GJK_loop (Suc k) a xfa b xfb s = GJK_loop k a xfa b xfb s2" for k
          using c3 e n3 sd ns go one
          by (cases "v s1") (auto simp: s2_def set3_def el_defs numeral_2_eq_2 numeral_3_eq_3)
        have m0: "vp (el0 (v s1)) \<in> M" using ev one by (auto simp: evolved_def)
        have p2: "pre_ok M s2" using m0 wM by (simp add: pre_ok_def s2_def el_defs)
        have c2: "count s2 = 2" "vp (el0 (v s2)) = vp (el0 (v s1))" "vp (el1 (v s2)) = vp w"
          by (simp_all add: s2_def el_defs)
        let ?s3 = "evolveLine s2"
        have e2: "evolve s2 = Inr ?s3" using c2 by (simp add: evolve_def)
        have r: "evolved M ?s3
           \<and> (count ?s3 = 1 \<and> vp (el0 (v ?s3)) = vp (el0 (v s2))
              \<or> count ?s3 \<noteq> 3 \<and> dist2 ?s3 < LengthSquared (vp (el0 (v s2))))"
          using evolveLine_result [of s2 M] c2 m0 wM by simp
        show ?thesis
        proof (cases "count ?s3 = 1 \<and> vp (el0 (v ?s3)) = vp (el0 (v s2))")
          case True
          have "searchDirection ?s3 = searchDirection s1"
            using True one c2 by (intro searchDirection_cong) simp_all
          then have "GJK_loop (Suc 0) a xfa b xfb s2 = Some (Inr ?s3)"
            using True sd ns e2 c2
            by (intro GJK_loop_exit_duplicate [where dir = dir and w = w])
               (simp_all add: s2_def old_indices_appended)
          then have "GJK_loop (Suc (Suc 0)) a xfa b xfb s = Some (Inr ?s3)"
            using step by simp
          then show ?thesis by blast
        next
          case False
          then have d: "count ?s3 \<noteq> 3" "dist2 ?s3 < dist2 s1"
            using r c2 one by (auto simp: dist2_def)
          have "progress M ?s3 < progress M s1"
            unfolding progress_def
            using fin dist2_in_values [of M ?s3] r d by (intro progress_less) auto
          then have "progress M (projr (evolve s2)) < progress M (projr (evolve s))"
            using e e2 by simp
          then obtain k r where "GJK_loop k a xfa b xfb s2 = Some (Inr r)"
            using less.hyps [OF _ p2] by blast
          then have "GJK_loop (Suc k) a xfa b xfb s = Some (Inr r)"
            using step by simp
          then show ?thesis by blast
        qed
      next
        case two
        define s2 where "s2 = s1\<lparr>v := (el0 (v s1), el1 (v s1), w), count := 3\<rparr>"
        have step: "GJK_loop (Suc k) a xfa b xfb s = GJK_loop k a xfa b xfb s2" for k
          using c3 e n3 sd ns go two
          by (cases "v s1") (auto simp: s2_def set3_def el_defs numeral_2_eq_2 numeral_3_eq_3)
        have m0: "vp (el0 (v s1)) \<in> M" "vp (el1 (v s1)) \<in> M"
          and ok: "edge_ok (vp (el0 (v s1))) (vp (el1 (v s1)))"
          using ev two by (auto simp: evolved_def)
        have p2: "pre_ok M s2" using m0 wM by (simp add: pre_ok_def s2_def el_defs)
        have c2: "count s2 = 3" "vp (el0 (v s2)) = vp (el0 (v s1))"
          "vp (el1 (v s2)) = vp (el1 (v s1))" "vp (el2 (v s2)) = vp w"
          by (simp_all add: s2_def el_defs)
        let ?s3 = "evolveTriangle s2"
        have e2: "evolve s2 = Inr ?s3" using c2 by (simp add: evolve_def)
        have ev3: "evolved M ?s3"
          using evolveTriangle_evolved [of s2 M] c2 m0 wM by simp
        have r: "count ?s3 = 2 \<and> vp (el0 (v ?s3)) = vp (el0 (v s2))
                   \<and> vp (el1 (v ?s3)) = vp (el1 (v s2))
                 \<or> count ?s3 = 3
                 \<or> count ?s3 \<noteq> 3
                    \<and> dist2 ?s3 < LengthSquared (proj_point (vp (el0 (v s2))) (vp (el1 (v s2))))"
          using evolveTriangle_after_edge [of s2] c2 ok by simp
        show ?thesis
        proof (cases "count ?s3 = 3")
          case True
          then have "GJK_loop (Suc 0) a xfa b xfb s2 = Some (Inr ?s3)"
            using e2 c2 by simp
          then have "GJK_loop (Suc (Suc 0)) a xfa b xfb s = Some (Inr ?s3)"
            using step by simp
          then show ?thesis by blast
        next
          case n33: False
          show ?thesis
          proof (cases "count ?s3 = 2 \<and> vp (el0 (v ?s3)) = vp (el0 (v s2))
                   \<and> vp (el1 (v ?s3)) = vp (el1 (v s2))")
            case True
            have "searchDirection ?s3 = searchDirection s1"
              using True two c2 by (intro searchDirection_cong) simp_all
            then have "GJK_loop (Suc 0) a xfa b xfb s2 = Some (Inr ?s3)"
              using True sd ns e2 c2
              by (intro GJK_loop_exit_duplicate [where dir = dir and w = w])
                 (simp_all add: s2_def old_indices_appended)
            then have "GJK_loop (Suc (Suc 0)) a xfa b xfb s = Some (Inr ?s3)"
              using step by simp
            then show ?thesis by blast
          next
            case False
            then have d: "dist2 ?s3 < dist2 s1"
              using r n33 c2 two by (auto simp: dist2_def)
            have "progress M ?s3 < progress M s1"
              unfolding progress_def
              using fin dist2_in_values [OF ev3 n33] d by (intro progress_less) auto
            then have "progress M (projr (evolve s2)) < progress M (projr (evolve s))"
              using e e2 by simp
            then obtain k r where "GJK_loop k a xfa b xfb s2 = Some (Inr r)"
              using less.hyps [OF _ p2] by blast
            then have "GJK_loop (Suc k) a xfa b xfb s = Some (Inr r)"
              using step by simp
            then show ?thesis by blast
          qed
        qed
      qed
    qed
  qed
qed

text \<open>
  The result of the loop does not depend on the bound on its iterations, once it is reached.
\<close>

lemma GJK_loop_more_fuel:
  "GJK_loop k a xfa b xfb s = Some r \<Longrightarrow> GJK_loop (k + j) a xfa b xfb s = Some r"
proof (induction k arbitrary: s)
  case 0
  then show ?case by simp
next
  case (Suc k)
  show ?case
    using Suc.prems Suc.IH
    by (auto simp: Let_def split: sum.splits if_splits)
qed

lemma GJK_seed:
  assumes "has_vertex a" "has_vertex b" "count s = 0"
  obtains v0 where "vp v0 \<in> Minkowski a xfa b xfb"
    and "\<And>k. GJK k s a xfa b xfb
           = GJK_loop k a xfa b xfb (s\<lparr>count := 1, v := (v0, el1 (v s), el2 (v s))\<rparr>)"
proof -
  obtain v0 where v0: "make_vertex a xfa b xfb 0 0 = Inr v0" "vp v0 \<in> Minkowski a xfa b xfb"
    using make_vertex_first [OF assms(1,2)] by blast
  then show ?thesis
    using assms(3) that [of v0] by (simp add: GJK_def)
qed

lemma GJK_loop_from_seed_or_simplex:
  assumes "has_vertex a" "has_vertex b" "Minkowski a xfa b xfb \<subseteq> M"
    and "count s = 0 \<or> pre_ok M s"
  obtains s0 where "pre_ok M s0"
    and "\<And>k. GJK k s a xfa b xfb = GJK_loop k a xfa b xfb s0"
proof (cases "count s = 0")
  case True
  obtain v0 where v0: "vp v0 \<in> Minkowski a xfa b xfb"
      "\<And>k. GJK k s a xfa b xfb
           = GJK_loop k a xfa b xfb (s\<lparr>count := 1, v := (v0, el1 (v s), el2 (v s))\<rparr>)"
    using GJK_seed [OF assms(1,2) True] by blast
  have "pre_ok M (s\<lparr>count := 1, v := (v0, el1 (v s), el2 (v s))\<rparr>)"
    using v0(1) assms(3) by (auto simp: pre_ok_def el_defs)
  then show ?thesis using v0(2) that by blast
next
  case False
  then have "pre_ok M s" using assms(4) by simp
  moreover have "GJK k s a xfa b xfb = GJK_loop k a xfa b xfb s" for k
    using False by (simp add: GJK_def)
  ultimately show ?thesis using that by blast
qed

text \<open>
  C4. For every pair of shapes that are circles or polygons with at least one vertex, and
  every pair of transforms, the loop of \<^verbatim>\<open>GJK\<close> ends after finitely many iterations, by its
  test for a duplicate support point, a zero search direction or a count of 3 (the three
  ways in which the model returns a simplex), without a panic and without a bound on the
  iterations in the code: some bound \<open>k\<close> is enough for the model to return. This holds from
  the empty simplex, which \<^verbatim>\<open>Distance\<close> passes, and from every simplex of up to three
  vertices, whatever they hold.
\<close>

theorem GJK_terminates:
  assumes "has_vertex a" "has_vertex b" and "count s \<le> 3"
  shows "\<exists>k r. GJK k s a xfa b xfb = Some (Inr r)"
proof -
  define M where "M = Minkowski a xfa b xfb
                      \<union> {vp (el0 (v s)), vp (el1 (v s)), vp (el2 (v s))}"
  have fin: "finite M" and sub: "Minkowski a xfa b xfb \<subseteq> M"
    by (auto simp: M_def finite_Minkowski)
  have "count s = 0 \<or> pre_ok M s"
    using assms(3) by (auto simp: pre_ok_def M_def)
  then obtain s0 where s0: "pre_ok M s0"
      "\<And>k. GJK k s a xfa b xfb = GJK_loop k a xfa b xfb s0"
    using GJK_loop_from_seed_or_simplex [OF assms(1,2) sub] by blast
  obtain k r where "GJK_loop k a xfa b xfb s0 = Some (Inr r)"
    using GJK_loop_terminates [OF assms(1,2) fin sub s0(1)] by blast
  then show ?thesis
    using s0(2) by auto
qed

theorem GJK_terminates_witness:
  "has_vertex (PolygonShape tri_poly) \<and> has_vertex (CircleShape circle_01)
   \<and> count zero_Simplex \<le> 3
   \<and> (\<exists>k r. GJK k zero_Simplex (PolygonShape tri_poly) identity_xf
                (CircleShape circle_01) identity_xf = Some (Inr r))"
  using GJK_terminates [of "PolygonShape tri_poly" "CircleShape circle_01" zero_Simplex
      identity_xf identity_xf]
  by (simp add: has_vertex_def tri_poly_Points zero_Simplex_def)

subsection \<open>The calls return\<close>

lemma getVertex_verts:
  assumes "has_vertex a" "getVertex a i = Inr p"
  shows "p \<in> verts a"
proof (cases a)
  case (CircleShape c)
  then show ?thesis using assms by auto
next
  case (PolygonShape q)
  then show ?thesis using assms by (auto simp: index_def split: if_splits)
next
  case (OtherShape gs gv)
  then show ?thesis using assms by (simp add: has_vertex_def)
qed

lemma vertex_ok_Minkowski:
  assumes "has_vertex a" "has_vertex b" "vertex_ok a xfa b xfb x"
  shows "vp x \<in> Minkowski a xfa b xfb"
proof -
  obtain pa pb where p: "getVertex a (indexA x) = Inr pa" "getVertex b (indexB x) = Inr pb"
      "vp x = Sub (Transform_Mul xfb pb) (Transform_Mul xfa pa)"
    using assms(3) by (auto simp: vertex_ok_def split: sum.splits)
  show ?thesis
    unfolding p(3) using getVertex_verts [OF assms(1) p(1)] getVertex_verts [OF assms(2) p(2)]
    by (rule Minkowski_I)
qed

lemma simplex_ok_pre_ok:
  assumes "has_vertex a" "has_vertex b" "simplex_ok a xfa b xfb s"
  shows "pre_ok (Minkowski a xfa b xfb) s"
  using assms(3) vertex_ok_Minkowski [OF assms(1,2)]
  by (auto simp: simplex_ok_def pre_ok_def)

lemma vertex_ok_vu [simp]: "vertex_ok a xfa b xfb (x\<lparr>vu := u\<rparr>) = vertex_ok a xfa b xfb x"
  by (auto simp: vertex_ok_def split: sum.splits)

lemma bindE_Inr_iff: "bindE m f = Inr y \<longleftrightarrow> (\<exists>x. m = Inr x \<and> f x = Inr y)"
  by (cases m) simp_all

lemma evolve_simplex_ok:
  assumes "simplex_ok a xfa b xfb s" "evolve s = Inr s1"
  shows "simplex_ok a xfa b xfb s1"
proof (cases s rule: Simplex_cases3)
  case (1 n x y z)
  consider "n = 1" | "n = 2" | "n = 3" using assms(1) 1 by (auto simp: simplex_ok_def)
  then show ?thesis
  proof cases
    case 1
    then show ?thesis using assms \<open>s = _\<close> by (auto simp: evolve_def)
  next
    case 2
    then show ?thesis
      using assms \<open>s = _\<close>
      by (auto simp: evolve_def evolveLine_def simplex_ok_def el_defs Let_def split: if_splits)
  next
    case 3
    have "s1 = evolveTriangle \<lparr>count = 3, v = (x, y, z)\<rparr>"
      using assms(2) 3 \<open>s = _\<close> by (simp add: evolve_def)
    then show ?thesis
      using assms(1) 3 \<open>s = _\<close> unfolding evolveTriangle_flat Let_def
      by (simp add: simplex_ok_def el_defs)
  qed
qed

lemma new_support_vertex_ok:
  assumes "new_support a xfa b xfb dir = Inr w"
  shows "vertex_ok a xfa b xfb w"
  using assms
  by (auto simp: new_support_def make_vertex_def vertex_ok_def bindE_Inr_iff)

lemma simplex_ok_count: "simplex_ok a xfa b xfb s \<Longrightarrow> count s = 1 \<or> count s = 2 \<or> count s = 3"
  by (auto simp: simplex_ok_def)

lemma append_simplex_ok:
  assumes "simplex_ok a xfa b xfb s1" "count s1 \<noteq> 3" "vertex_ok a xfa b xfb w"
    "set3 (v s1) (count s1) w = Inr v'"
  shows "simplex_ok a xfa b xfb (s1\<lparr>v := v', count := count s1 + 1\<rparr>)"
  using assms
  by (cases "v s1") (auto simp: simplex_ok_def set3_def el_defs split: if_splits)

lemma GJK_loop_simplex_ok:
  "GJK_loop k a xfa b xfb s = Some (Inr r) \<Longrightarrow> simplex_ok a xfa b xfb s
   \<Longrightarrow> simplex_ok a xfa b xfb r"
proof (induction k arbitrary: s)
  case 0
  then show ?case by simp
next
  case (Suc k)
  obtain s1 where e: "evolve s = Inr s1"
    using Suc.prems(1) by (cases "evolve s") (auto simp: Let_def split: if_splits)
  have ok1: "simplex_ok a xfa b xfb s1"
    using evolve_simplex_ok [OF Suc.prems(2) e] .
  show ?case
  proof (cases "count s1 = 3")
    case True
    then show ?thesis using Suc.prems(1) e ok1 by (auto simp: Let_def split: if_splits)
  next
    case n3: False
    obtain dir where sd: "searchDirection s1 = Inr dir"
      using Suc.prems(1) e n3
      by (cases "searchDirection s1") (auto simp: Let_def split: if_splits)
    show ?thesis
    proof (cases "LengthSquared dir = 0")
      case True
      then show ?thesis using Suc.prems(1) e n3 sd ok1 by (auto simp: Let_def split: if_splits)
    next
      case nz: False
      obtain w where ns: "new_support a xfa b xfb dir = Inr w"
        using Suc.prems(1) e n3 sd nz
        by (cases "new_support a xfa b xfb dir") (auto simp: Let_def split: if_splits)
      show ?thesis
      proof (cases "(indexA w, indexB w) \<in> set (old_indices s)")
        case True
        then show ?thesis
          using Suc.prems(1) e n3 sd nz ns ok1 by (auto simp: Let_def split: if_splits)
      next
        case False
        obtain v' where s3: "set3 (v s1) (count s1) w = Inr v'"
          using Suc.prems(1) e n3 sd nz ns False
          by (cases "set3 (v s1) (count s1) w") (auto simp: Let_def split: if_splits)
        have "GJK_loop k a xfa b xfb (s1\<lparr>v := v', count := count s1 + 1\<rparr>) = Some (Inr r)"
          using Suc.prems(1) e n3 sd nz ns False s3 by (auto simp: Let_def split: if_splits)
        moreover have "simplex_ok a xfa b xfb (s1\<lparr>v := v', count := count s1 + 1\<rparr>)"
          using append_simplex_ok [OF ok1 n3 new_support_vertex_ok [OF ns] s3] .
        ultimately show ?thesis by (rule Suc.IH)
      qed
    qed
  qed
qed

lemma make_vertex_vertex_ok:
  "make_vertex a xfa b xfb ia ib = Inr x \<Longrightarrow> vertex_ok a xfa b xfb x"
  by (auto simp: make_vertex_def vertex_ok_def bindE_Inr_iff)

lemma GJK_simplex_ok:
  assumes "GJK k s a xfa b xfb = Some (Inr r)" "count s = 0 \<or> simplex_ok a xfa b xfb s"
  shows "simplex_ok a xfa b xfb r"
proof (cases "count s = 0")
  case True
  obtain v0 where v0: "make_vertex a xfa b xfb 0 0 = Inr v0"
    using assms(1) True by (cases "make_vertex a xfa b xfb 0 0") (simp_all add: GJK_def)
  have "simplex_ok a xfa b xfb (s\<lparr>count := 1, v := (v0, el1 (v s), el2 (v s))\<rparr>)"
    using make_vertex_vertex_ok [OF v0] by (simp add: simplex_ok_def el_defs)
  moreover have "GJK_loop k a xfa b xfb (s\<lparr>count := 1, v := (v0, el1 (v s), el2 (v s))\<rparr>)
                 = Some (Inr r)"
    using assms(1) True v0 by (simp add: GJK_def)
  ultimately show ?thesis using GJK_loop_simplex_ok by blast
next
  case False
  then show ?thesis
    using assms GJK_loop_simplex_ok [of k a xfa b xfb s r] by (simp add: GJK_def)
qed

lemma GJK_more_fuel:
  "GJK k s a xfa b xfb = Some r \<Longrightarrow> GJK (k + j) s a xfa b xfb = Some r"
  by (auto simp: GJK_def GJK_loop_more_fuel split: sum.splits if_splits)

lemma GJK_total:
  assumes "has_vertex a" "has_vertex b" "count s = 0 \<or> simplex_ok a xfa b xfb s"
  shows "\<exists>K r. simplex_ok a xfa b xfb r \<and> (\<forall>k\<ge>K. GJK k s a xfa b xfb = Some (Inr r))"
proof -
  have "count s = 0 \<or> pre_ok (Minkowski a xfa b xfb) s"
    using assms(3) simplex_ok_pre_ok [OF assms(1,2)] by blast
  then obtain s0 where s0: "pre_ok (Minkowski a xfa b xfb) s0"
      "\<And>k. GJK k s a xfa b xfb = GJK_loop k a xfa b xfb s0"
    using GJK_loop_from_seed_or_simplex [OF assms(1,2) subset_refl] by blast
  obtain K r where "GJK_loop K a xfa b xfb s0 = Some (Inr r)"
    using GJK_loop_terminates [OF assms(1,2) finite_Minkowski subset_refl s0(1)] by blast
  then have g: "GJK K s a xfa b xfb = Some (Inr r)"
    using s0(2) by simp
  have "GJK k s a xfa b xfb = Some (Inr r)" if "K \<le> k" for k
    using GJK_more_fuel [OF g, of "k - K"] that by simp
  then show ?thesis
    using GJK_simplex_ok [OF g assms(3)] by blast
qed

lemma valid_index_Inr: "valid_index a i \<Longrightarrow> \<exists>p. getVertex a i = Inr p"
  by (cases "getVertex a i") (simp_all add: valid_index_def)

lemma vertex_ok_valid:
  "vertex_ok a xfa b xfb x \<Longrightarrow> valid_index a (indexA x) \<and> valid_index b (indexB x)"
  by (auto simp: vertex_ok_def valid_index_def split: sum.splits)

lemma support_valid:
  assumes "has_vertex a"
  shows "\<exists>i. getSupport a d = Inr i \<and> valid_index a i"
  using support_vertex [OF assms, of d] by (auto simp: valid_index_def)

lemma upt_small: "[0..<1] = [0]" "[0..<2] = [0, 1]" "[0..<3] = [0, 1, 2]"
  by (simp_all add: upt_rec)

lemma ReadCache_total:
  assumes "cache_ok a b cache"
  shows "\<exists>s1. ReadCache s cache a xfa b xfb = Inr s1
              \<and> (count s1 = 0 \<or> simplex_ok a xfa b xfb s1)"
proof (cases s rule: Simplex_cases3)
  case (1 n x y z)
  obtain m i0 i1 i2 j0 j1 j2 cn where c: "cache = \<lparr>metric = m, ccount = cn,
      cindexA = (i0, i1, i2), cindexB = (j0, j1, j2)\<rparr>"
    by (cases cache) (metis old.unit.exhaust prod_cases3)
  consider "cn = 0" | "cn = 1" | "cn = 2" | "cn = 3"
    using assms c by (auto simp: cache_ok_def)
  then show ?thesis
  proof cases
    case 1
    then show ?thesis using c \<open>s = _\<close> by (simp add: ReadCache_def)
  next
    case 2
    obtain p0 q0 where "getVertex a i0 = Inr p0" "getVertex b j0 = Inr q0"
      using assms c 2 valid_index_Inr by (fastforce simp: cache_ok_def el_defs)
    then show ?thesis
      using c 2 \<open>s = _\<close>
      by (simp add: ReadCache_def upt_small get3_def set3_def simplex_ok_def vertex_ok_def el_defs)
  next
    case 3
    obtain p0 q0 p1 q1 where "getVertex a i0 = Inr p0" "getVertex b j0 = Inr q0"
       "getVertex a i1 = Inr p1" "getVertex b j1 = Inr q1"
      using assms c 3 valid_index_Inr by (fastforce simp: cache_ok_def el_defs)
    then show ?thesis
      using c 3 \<open>s = _\<close>
      by (simp add: ReadCache_def upt_small get3_def set3_def simplex_ok_def vertex_ok_def
          el_defs Metric_def Let_def)
  next
    case 4
    obtain p0 q0 p1 q1 p2 q2 where "getVertex a i0 = Inr p0" "getVertex b j0 = Inr q0"
       "getVertex a i1 = Inr p1" "getVertex b j1 = Inr q1"
       "getVertex a i2 = Inr p2" "getVertex b j2 = Inr q2"
      using assms c 4 valid_index_Inr by (fastforce simp: cache_ok_def el_defs)
    then show ?thesis
      using c 4 \<open>s = _\<close>
      by (simp add: ReadCache_def upt_small get3_def set3_def simplex_ok_def vertex_ok_def
          el_defs Metric_def Let_def)
  qed
qed

lemma WriteCache_total:
  assumes "simplex_ok a xfa b xfb r"
  shows "\<exists>c'. WriteCache r cache = Inr c' \<and> cache_ok a b c' \<and> ccount c' = count r"
proof (cases r rule: Simplex_cases3)
  case (1 n x y z)
  obtain ia ib where ci: "cindexA cache = ia" "cindexB cache = ib" by simp
  obtain i0 i1 i2 j0 j1 j2 where ii: "ia = (i0, i1, i2)" "ib = (j0, j1, j2)"
    by (metis prod_cases3)
  consider "n = 1" | "n = 2" | "n = 3"
    using assms 1 by (auto simp: simplex_ok_def)
  then show ?thesis
  proof cases
    case 1
    then show ?thesis
      using assms \<open>r = _\<close> ci ii vertex_ok_valid [of a xfa b xfb x]
      by (simp add: WriteCache_def Metric_def upt_small get3_def set3_def cache_ok_def
          simplex_ok_def el_defs)
  next
    case 2
    then show ?thesis
      using assms \<open>r = _\<close> ci ii vertex_ok_valid [of a xfa b xfb x]
        vertex_ok_valid [of a xfa b xfb y]
      by (simp add: WriteCache_def Metric_def upt_small get3_def set3_def cache_ok_def
          simplex_ok_def el_defs Let_def)
  next
    case 3
    then show ?thesis
      using assms \<open>r = _\<close> ci ii vertex_ok_valid [of a xfa b xfb x]
        vertex_ok_valid [of a xfa b xfb y] vertex_ok_valid [of a xfa b xfb z]
      by (simp add: WriteCache_def Metric_def upt_small get3_def set3_def cache_ok_def
          simplex_ok_def el_defs Let_def)
  qed
qed

lemma init_total:
  assumes "cache_ok a b c" "ccount c = 1 \<or> ccount c = 2"
  shows "\<exists>fcn. init (newSeparation a b) c xfa xfb = Inr fcn \<and> shapeA fcn = a \<and> shapeB fcn = b"
proof -
  obtain p0 q0 where v0: "getVertex a (el0 (cindexA c)) = Inr p0"
      "getVertex b (el0 (cindexB c)) = Inr q0"
    using assms valid_index_Inr by (fastforce simp: cache_ok_def)
  show ?thesis
  proof (cases "ccount c = 1")
    case True
    then show ?thesis using v0 by (simp add: init_def newSeparation_def)
  next
    case False
    then have 2: "ccount c = 2" using assms(2) by simp
    obtain p1 q1 where v1: "getVertex a (el1 (cindexA c)) = Inr p1"
        "getVertex b (el1 (cindexB c)) = Inr q1"
      using assms(1) 2 valid_index_Inr by (fastforce simp: cache_ok_def)
    show ?thesis using v0 v1 2 by (simp add: init_def newSeparation_def Let_def)
  qed
qed

lemma MinSeparation_total:
  assumes "has_vertex (shapeA fcn)" "has_vertex (shapeB fcn)"
  shows "\<exists>ia ib s. MinSeparation fcn xfa xfb = Inr (ia, ib, s) \<and> witness_ok fcn ia ib"
proof (cases "kind fcn")
  case axisPoints
  obtain ia where a: "getSupport (shapeA fcn) (Rotation_MulT (Rotation xfa) (saxis fcn)) = Inr ia"
      "valid_index (shapeA fcn) ia"
    using support_valid [OF assms(1)] by blast
  obtain ib where b: "getSupport (shapeB fcn) (Rotation_MulT (Rotation xfb) (Neg (saxis fcn))) = Inr ib"
      "valid_index (shapeB fcn) ib"
    using support_valid [OF assms(2)] by blast
  obtain pa pb where "getVertex (shapeA fcn) ia = Inr pa" "getVertex (shapeB fcn) ib = Inr pb"
    using a(2) b(2) valid_index_Inr by blast
  then show ?thesis using axisPoints a b by (simp add: MinSeparation_def witness_ok_def Let_def)
next
  case axisFaceA
  obtain ib where b: "getSupport (shapeB fcn)
        (Rotation_MulT (Rotation xfb) (Neg (Rotation_Mul (Rotation xfa) (saxis fcn)))) = Inr ib"
      "valid_index (shapeB fcn) ib"
    using support_valid [OF assms(2)] by blast
  obtain pb where "getVertex (shapeB fcn) ib = Inr pb"
    using b(2) valid_index_Inr by blast
  then show ?thesis using axisFaceA b by (simp add: MinSeparation_def witness_ok_def Let_def)
next
  case axisFaceB
  obtain ia where a: "getSupport (shapeA fcn)
        (Rotation_MulT (Rotation xfa) (Neg (Rotation_Mul (Rotation xfb) (saxis fcn)))) = Inr ia"
      "valid_index (shapeA fcn) ia"
    using support_valid [OF assms(1)] by blast
  obtain pa where "getVertex (shapeA fcn) ia = Inr pa"
    using a(2) valid_index_Inr by blast
  then show ?thesis using axisFaceB a by (simp add: MinSeparation_def witness_ok_def Let_def)
qed

lemma Evaluate_total:
  assumes "witness_ok fcn ia ib"
  shows "\<exists>s. Evaluate fcn ia xfa ib xfb = Inr s"
proof (cases "kind fcn")
  case axisPoints
  then obtain pa pb where "getVertex (shapeA fcn) ia = Inr pa" "getVertex (shapeB fcn) ib = Inr pb"
    using assms valid_index_Inr by (fastforce simp: witness_ok_def)
  then show ?thesis using axisPoints by (simp add: Evaluate_def)
next
  case axisFaceA
  then obtain pb where "getVertex (shapeB fcn) ib = Inr pb"
    using assms valid_index_Inr by (fastforce simp: witness_ok_def)
  then show ?thesis using axisFaceA by (simp add: Evaluate_def Let_def)
next
  case axisFaceB
  then obtain pa where "getVertex (shapeA fcn) ia = Inr pa"
    using assms valid_index_Inr by (fastforce simp: witness_ok_def)
  then show ?thesis using axisFaceB by (simp add: Evaluate_def Let_def)
qed

lemma root_finder_total:
  assumes "witness_ok fcn ia ib"
  shows "\<exists>t. root_finder fcn sweepA sweepB ia ib js a1 a2 s1 s2 t2 = Inr t"
proof (induction js arbitrary: a1 a2 s1 s2)
  case Nil
  then show ?case by simp
next
  case (Cons j js)
  define t where "t = (if odd j then a1 + (target - s1) * (a2 - a1) / (s2 - s1)
                       else 0.5 * (a1 + a2))"
  obtain s where "Evaluate fcn ia (GetTransform sweepA t) ib (GetTransform sweepB t) = Inr s"
    using Evaluate_total [OF assms] by blast
  then show ?case
    using Cons.IH [of t a2 s s2] Cons.IH [of a1 t s1 s]
    by (auto simp: Let_def t_def)
qed

lemma inner_loop_total:
  assumes "has_vertex (shapeA fcn)" "has_vertex (shapeB fcn)"
  shows "\<exists>r. inner_loop fcn sweepA sweepB is t1 t2 = Inr r"
proof (induction "is" arbitrary: t2)
  case Nil
  then show ?case by simp
next
  case (Cons i "is")
  obtain ia ib s2 where ms:
    "MinSeparation fcn (GetTransform sweepA t2) (GetTransform sweepB t2) = Inr (ia, ib, s2)"
    "witness_ok fcn ia ib"
    using MinSeparation_total [OF assms] by blast
  obtain s1 where ev: "Evaluate fcn ia (GetTransform sweepA t1) ib (GetTransform sweepB t1) = Inr s1"
    using Evaluate_total [OF ms(2)] by blast
  obtain t2' where rf: "root_finder fcn sweepA sweepB ia ib [0..<50] t1 t2 s1 s2 t2 = Inr t2'"
    using root_finder_total [OF ms(2)] by blast
  show ?case
    using ms(1) ev rf Cons.IH [of t2'] by auto
qed

lemma ClosestPoint_total:
  assumes "simplex_ok a xfa b xfb r"
  shows "\<exists>cp. ClosestPoint r = Inr cp \<and> (count r = 3 \<longrightarrow> Length cp = 0)"
  using simplex_ok_count [OF assms]
  by (auto simp: ClosestPoint_def Length_def zero_Point_def)

lemma outer_loop_total:
  assumes "has_vertex a" "has_vertex b"
  shows "cache_ok a b cache
         \<Longrightarrow> \<exists>K t s'. \<forall>k\<ge>K. outer_loop k a sweepA b sweepB is simplex cache t1 = Some (Inr (t, s'))"
proof (induction "is" arbitrary: simplex cache t1)
  case Nil
  then show ?case by simp
next
  case (Cons i "is")
  let ?xfa = "GetTransform sweepA t1" and ?xfb = "GetTransform sweepB t1"
  obtain s1 where rc: "ReadCache simplex cache a ?xfa b ?xfb = Inr s1"
      and ok1: "count s1 = 0 \<or> simplex_ok a ?xfa b ?xfb s1"
    using ReadCache_total [OF Cons.prems] by blast
  obtain K0 s2 where ok2: "simplex_ok a ?xfa b ?xfb s2"
      and g: "\<And>k. K0 \<le> k \<Longrightarrow> GJK k s1 a ?xfa b ?xfb = Some (Inr s2)"
    using GJK_total [OF assms ok1] by blast
  obtain cache' where wc: "WriteCache s2 cache = Inr cache'" and cok: "cache_ok a b cache'"
      and cc: "ccount cache' = count s2"
    using WriteCache_total [OF ok2] by blast
  obtain cp where cl: "ClosestPoint s2 = Inr cp" and c3: "count s2 = 3 \<longrightarrow> Length cp = 0"
    using ClosestPoint_total [OF ok2] by blast
  show ?case
  proof (cases "Length cp \<le> 0 \<or> Length cp < target + tolerance")
    case True
    have "\<forall>k\<ge>K0. outer_loop k a sweepA b sweepB (i # is) simplex cache t1
            = Some (Inr (if Length cp \<le> 0 then 0 else t1, s2))"
      using rc g wc cl True by (auto simp: Let_def)
    then show ?thesis by blast
  next
    case far: False
    then have "count s2 = 1 \<or> count s2 = 2"
      using c3 simplex_ok_count [OF ok2] by auto
    then obtain fcn where ini: "init (newSeparation a b) cache' ?xfa ?xfb = Inr fcn"
        and sh: "shapeA fcn = a" "shapeB fcn = b"
      using init_total [OF cok, of ?xfa ?xfb] cc by auto
    obtain r where il: "inner_loop fcn sweepA sweepB [0..<20] t1 1 = Inr r"
      using inner_loop_total [of fcn] assms sh by blast
    show ?thesis
    proof (cases r)
      case (Return x)
      have "\<forall>k\<ge>K0. outer_loop k a sweepA b sweepB (i # is) simplex cache t1 = Some (Inr (x, s2))"
        using rc g wc cl far ini il Return by (auto simp: Let_def)
      then show ?thesis by blast
    next
      case BreakLoop
      have "\<forall>k\<ge>K0. outer_loop k a sweepA b sweepB (i # is) simplex cache t1 = Some (Inr (t1, s2))"
        using rc g wc cl far ini il BreakLoop by (auto simp: Let_def)
      then show ?thesis by blast
    next
      case (NextRound t1')
      obtain K1 t s' where r: "\<And>k. K1 \<le> k
          \<Longrightarrow> outer_loop k a sweepA b sweepB is s2 cache' t1' = Some (Inr (t, s'))"
        using Cons.IH [OF cok, of s2 t1'] by blast
      have "\<forall>k\<ge>max K0 K1. outer_loop k a sweepA b sweepB (i # is) simplex cache t1
              = Some (Inr (t, s'))"
        using rc g wc cl far ini il NextRound r by (auto simp: Let_def)
      then show ?thesis by blast
    qed
  qed
qed

text \<open>
  For circles and polygons with at least one vertex, \<^verbatim>\<open>TimeOfImpact\<close> returns a value: it does
  not panic, and every bound on the iterations of \<^verbatim>\<open>GJK\<close> from some \<open>K\<close> on gives the same
  result. The same holds of \<^verbatim>\<open>Distance\<close>.
\<close>

lemma TimeOfImpact_returns:
  assumes "has_vertex a" "has_vertex b"
  shows "\<exists>K t s'. \<forall>k\<ge>K. TimeOfImpact k simplex a sweepA b sweepB = Some (Inr (t, s'))"
  unfolding TimeOfImpact_def
  by (rule outer_loop_total [OF assms]) (simp add: cache_ok_def zero_SimplexCache_def)

lemma Distance_returns:
  assumes "has_vertex a" "has_vertex b"
  shows "\<exists>K d. \<forall>k\<ge>K. Distance k a xfa b xfb = Some (Inr d)"
proof -
  obtain K r where ok: "simplex_ok a xfa b xfb r"
      and g: "\<And>k. K \<le> k \<Longrightarrow> GJK k zero_Simplex a xfa b xfb = Some (Inr r)"
    using GJK_total [OF assms, of zero_Simplex xfa xfb] by (auto simp: zero_Simplex_def)
  obtain cp where "ClosestPoint r = Inr cp"
    using ClosestPoint_total [OF ok] by blast
  then have "\<forall>k\<ge>K. Distance k a xfa b xfb = Some (Inr (Length cp))"
    using g by (simp add: Distance_def)
  then show ?thesis by blast
qed

subsection \<open>Symmetry of the distance\<close>

lemma Neg_Neg [simp]: "Neg (Neg p) = p"
  by (simp add: Neg_def)

lemma Dot_Neg_Neg [simp]: "Dot (Neg p) (Neg q) = Dot p q"
  by (simp add: Dot_def Neg_def)

lemma Cross_Neg_Neg [simp]: "Cross (Neg p) (Neg q) = Cross p q"
  by (simp add: Cross_def Neg_def)

lemma Sub_Neg_Neg [simp]: "Sub (Neg p) (Neg q) = Neg (Sub p q)"
  by (simp add: Sub_def Neg_def)

lemma LengthSquared_Neg [simp]: "LengthSquared (Neg p) = LengthSquared p"
  by (simp add: LengthSquared_def Neg_def)

lemma Length_Neg [simp]: "Length (Neg p) = Length p"
  by (simp add: Length_def Neg_def)

lemma CrossSP_Neg: "CrossSP s (Neg p) = Neg (CrossSP s p)"
  by (simp add: CrossSP_def Neg_def)

lemma CrossPS_Neg: "CrossPS (Neg p) s = Neg (CrossPS p s)"
  by (simp add: CrossPS_def Neg_def)

lemma Cross_Neg_left: "Cross (Neg p) q = - Cross p q"
  by (simp add: Cross_def Neg_def)

lemma Cross_Neg_right: "Cross p (Neg q) = - Cross p q"
  by (simp add: Cross_def Neg_def)

lemma Dot_Neg_left: "Dot (Neg p) q = - Dot p q"
  by (simp add: Dot_def Neg_def)

lemma Dot_Neg_right: "Dot p (Neg q) = - Dot p q"
  by (simp add: Dot_def Neg_def)

lemma swap_sel [simp]:
  "vp (swap_vertex x) = Neg (vp x)" "vu (swap_vertex x) = vu x"
  "indexA (swap_vertex x) = indexB x" "indexB (swap_vertex x) = indexA x"
  "va (swap_vertex x) = vb x" "vb (swap_vertex x) = va x"
  by (simp_all add: swap_vertex_def)

lemma swap_vu [simp]: "swap_vertex (x\<lparr>vu := u\<rparr>) = (swap_vertex x)\<lparr>vu := u\<rparr>"
  by (simp add: swap_vertex_def)

lemma swap_S_sel [simp]:
  "count (swap_Simplex s) = count s"
  "el0 (v (swap_Simplex s)) = swap_vertex (el0 (v s))"
  "el1 (v (swap_Simplex s)) = swap_vertex (el1 (v s))"
  "el2 (v (swap_Simplex s)) = swap_vertex (el2 (v s))"
  by (simp_all add: swap_Simplex_def el0_def el1_def el2_def)

lemma swap_S_upd:
  "swap_Simplex (s\<lparr>count := n, v := (x, y, z)\<rparr>)
    = (swap_Simplex s)\<lparr>count := n, v := (swap_vertex x, swap_vertex y, swap_vertex z)\<rparr>"
  "swap_Simplex (s\<lparr>v := (x, y, z)\<rparr>)
    = (swap_Simplex s)\<lparr>v := (swap_vertex x, swap_vertex y, swap_vertex z)\<rparr>"
  by (simp_all add: swap_Simplex_def el0_def el1_def el2_def)

lemma evolveLine_swap: "evolveLine (swap_Simplex s) = swap_Simplex (evolveLine s)"
  by (cases s rule: Simplex_cases3)
     (simp add: evolveLine_def Let_def swap_Simplex_def el0_def el1_def el2_def
       Dot_Neg_left Dot_Neg_right)

lemma evolveTriangle_swap: "evolveTriangle (swap_Simplex s) = swap_Simplex (evolveTriangle s)"
  by (cases s rule: Simplex_cases3)
     (simp add: evolveTriangle_def Let_def swap_Simplex_def el0_def el1_def el2_def
       Dot_Neg_left Dot_Neg_right)

lemma evolve_swap: "evolve (swap_Simplex s) = map_sum id swap_Simplex (evolve s)"
  by (simp add: evolve_def evolveLine_swap evolveTriangle_swap)

lemma searchDirection_swap:
  "searchDirection (swap_Simplex s) = map_sum id Neg (searchDirection s)"
  by (simp add: searchDirection_def Let_def CrossSP_Neg CrossPS_Neg Cross_Neg_left Cross_Neg_right)

lemma ClosestPoint_swap:
  "ClosestPoint (swap_Simplex s) = map_sum id Neg (ClosestPoint s)"
  by (simp add: ClosestPoint_def) (simp add: Neg_def Add_def Mul_def zero_Point_def)

lemma old_indices_swap:
  "old_indices (swap_Simplex s) = map prod.swap (old_indices s)"
proof -
  have "[swap_vertex (el0 (v s)), swap_vertex (el1 (v s)), swap_vertex (el2 (v s))]
        = map swap_vertex [el0 (v s), el1 (v s), el2 (v s)]"
    by simp
  then show ?thesis
    unfolding old_indices_def swap_S_sel
    by (simp only: take_map map_map) (simp add: comp_def)
qed

lemma getSupport_error:
  "is_Circle_or_Polygon a \<Longrightarrow> getSupport a d = Inl e \<Longrightarrow> e = IndexOutOfRange"
  by (cases a) (auto simp: is_Circle_or_Polygon_def Polygon_getSupport_def split: list.splits)

lemma getVertex_error:
  "is_Circle_or_Polygon a \<Longrightarrow> getVertex a i = Inl e \<Longrightarrow> e = IndexOutOfRange"
  by (cases a) (auto simp: is_Circle_or_Polygon_def index_def split: if_splits)

lemma make_vertex_swap:
  assumes "is_Circle_or_Polygon a" "is_Circle_or_Polygon b"
  shows "make_vertex b xfb a xfa ib ia = map_sum id swap_vertex (make_vertex a xfa b xfb ia ib)"
proof (cases "getVertex a ia")
  case la: (Inl e)
  then have e: "e = IndexOutOfRange" using assms(1) getVertex_error by blast
  show ?thesis
  proof (cases "getVertex b ib")
    case (Inl e')
    then have "e' = IndexOutOfRange" using assms(2) getVertex_error by blast
    then show ?thesis using la Inl e by (simp add: make_vertex_def)
  next
    case (Inr pb)
    then show ?thesis using la by (simp add: make_vertex_def)
  qed
next
  case ra: (Inr pa)
  show ?thesis
  proof (cases "getVertex b ib")
    case (Inl e')
    then show ?thesis using ra by (simp add: make_vertex_def)
  next
    case (Inr pb)
    then show ?thesis using ra by (simp add: make_vertex_def swap_vertex_def Sub_def Neg_def)
  qed
qed

lemma new_support_swap:
  assumes "is_Circle_or_Polygon a" "is_Circle_or_Polygon b"
  shows "new_support b xfb a xfa (Neg dir) = map_sum id swap_vertex (new_support a xfa b xfb dir)"
proof (cases "getSupport a (Rotation_MulT (Rotation xfa) (Neg dir))")
  case la: (Inl e)
  then have e: "e = IndexOutOfRange" using assms(1) getSupport_error by blast
  show ?thesis
  proof (cases "getSupport b (Rotation_MulT (Rotation xfb) dir)")
    case (Inl e')
    then have "e' = IndexOutOfRange" using assms(2) getSupport_error by blast
    then show ?thesis using la Inl e by (simp add: new_support_def)
  next
    case (Inr ib)
    then show ?thesis using la by (simp add: new_support_def)
  qed
next
  case ra: (Inr ia)
  show ?thesis
  proof (cases "getSupport b (Rotation_MulT (Rotation xfb) dir)")
    case (Inl e')
    then show ?thesis using ra by (simp add: new_support_def)
  next
    case (Inr ib)
    then show ?thesis
      using ra make_vertex_swap [OF assms, of xfb xfa ib ia] by (simp add: new_support_def)
  qed
qed

lemma set3_swap:
  "set3 (v (swap_Simplex s)) n (swap_vertex x)
   = map_sum id (\<lambda>w. (swap_vertex (el0 w), swap_vertex (el1 w), swap_vertex (el2 w))) (set3 (v s) n x)"
  by (cases s rule: Simplex_cases3) (simp add: set3_def swap_Simplex_def el0_def el1_def el2_def)

lemma swap_Simplex_append:
  "swap_Simplex (s\<lparr>v := w, count := n\<rparr>)
   = (swap_Simplex s)\<lparr>v := (swap_vertex (el0 w), swap_vertex (el1 w), swap_vertex (el2 w)), count := n\<rparr>"
  by (simp add: swap_Simplex_def)

lemma GJK_loop_swap:
  assumes "is_Circle_or_Polygon a" "is_Circle_or_Polygon b"
  shows "GJK_loop k b xfb a xfa (swap_Simplex s)
         = map_option (map_sum id swap_Simplex) (GJK_loop k a xfa b xfb s)"
proof (induction k arbitrary: s)
  case 0
  then show ?case by simp
next
  case (Suc k)
  show ?case
  proof (cases "evolve s")
    case (Inl e)
    then show ?thesis by (simp add: evolve_swap)
  next
    case s1: (Inr s1)
    show ?thesis
    proof (cases "searchDirection s1")
      case (Inl e)
      then show ?thesis using s1 by (simp add: evolve_swap searchDirection_swap)
    next
      case d: (Inr dir)
      show ?thesis
      proof (cases "new_support a xfa b xfb dir")
        case (Inl e)
        then show ?thesis
          using s1 d assms by (simp add: evolve_swap searchDirection_swap new_support_swap)
      next
        case sup: (Inr support)
        have mem: "(indexB support, indexA support) \<in> set (map prod.swap (old_indices s))
                   \<longleftrightarrow> (indexA support, indexB support) \<in> set (old_indices s)"
          by force
        show ?thesis
        proof (cases "set3 (v s1) (count s1) support")
          case (Inl e)
          then show ?thesis
            using s1 d sup assms mem
            by (simp add: evolve_swap searchDirection_swap new_support_swap old_indices_swap
                set3_swap del: set_map)
        next
          case (Inr w)
          then show ?thesis
            using s1 d sup assms mem Suc.IH
            by (simp add: evolve_swap searchDirection_swap new_support_swap old_indices_swap
                set3_swap swap_Simplex_append [symmetric] del: set_map)
        qed
      qed
    qed
  qed
qed

lemma swap_zero: "swap_Simplex zero_Simplex = zero_Simplex"
  by (simp add: swap_Simplex_def zero_Simplex_def zero_vertex_def swap_vertex_def el0_def el1_def
      el2_def zero_Point_def Neg_def)

lemma GJK_swap:
  assumes "is_Circle_or_Polygon a" "is_Circle_or_Polygon b"
  shows "GJK k (swap_Simplex s) b xfb a xfa = map_option (map_sum id swap_Simplex) (GJK k s a xfa b xfb)"
proof (cases "make_vertex a xfa b xfb 0 0")
  case (Inl e)
  then show ?thesis
    using make_vertex_swap [OF assms, of xfb xfa 0 0] GJK_loop_swap [OF assms, of k xfb xfa s]
    by (simp add: GJK_def)
next
  case (Inr v0)
  have "swap_Simplex (s\<lparr>count := 1, v := (v0, el1 (v s), el2 (v s))\<rparr>)
        = (swap_Simplex s)\<lparr>count := 1, v := (swap_vertex v0, el1 (v (swap_Simplex s)), el2 (v (swap_Simplex s)))\<rparr>"
    by (simp add: swap_Simplex_def el0_def el1_def el2_def)
  then show ?thesis
    using Inr make_vertex_swap [OF assms, of xfb xfa 0 0] GJK_loop_swap [OF assms, of k xfb xfa s]
      GJK_loop_swap [OF assms, of k xfb xfa "s\<lparr>count := 1, v := (v0, el1 (v s), el2 (v s))\<rparr>"]
    by (simp add: GJK_def)
qed

text \<open>
  C6. For all shapes A and B that are circles or polygons and all transforms,
  \<^verbatim>\<open>Distance(A, xfA, B, xfB)\<close> and \<^verbatim>\<open>Distance(B, xfB, A, xfA)\<close> are equal (so within
  \<open>1e-6\<close>): for every bound on the iterations of \<^verbatim>\<open>GJK\<close> the two calls return the same
  value, or both panic, or both are still in the loop.
\<close>

theorem Distance_symmetric:
  assumes "is_Circle_or_Polygon a" "is_Circle_or_Polygon b"
  shows "Distance k a xfa b xfb = Distance k b xfb a xfa"
proof -
  have "GJK k zero_Simplex b xfb a xfa = map_option (map_sum id swap_Simplex) (GJK k zero_Simplex a xfa b xfb)"
    using GJK_swap [OF assms, of k zero_Simplex] by (simp add: swap_zero)
  then show ?thesis
  proof (cases "GJK k zero_Simplex a xfa b xfb")
    case None
    then show ?thesis using \<open>GJK k zero_Simplex b xfb a xfa = _\<close> by (simp add: Distance_def)
  next
    case (Some r)
    then show ?thesis
      using \<open>GJK k zero_Simplex b xfb a xfa = _\<close>
      by (cases r; cases "ClosestPoint (projr r)") (simp_all add: Distance_def ClosestPoint_swap)
  qed
qed

theorem Distance_symmetric_witness:
  "is_Circle_or_Polygon (PolygonShape tri_poly) \<and> is_Circle_or_Polygon (CircleShape circle_01)
   \<and> Distance 4 (PolygonShape tri_poly) identity_xf (CircleShape circle_01) identity_xf
       = Distance 4 (CircleShape circle_01) identity_xf (PolygonShape tri_poly) identity_xf
   \<and> Distance 4 (PolygonShape tri_poly) identity_xf (CircleShape circle_01) identity_xf
       = Some (Inr 1)"
proof -
  have k: "is_Circle_or_Polygon (PolygonShape tri_poly)" "is_Circle_or_Polygon (CircleShape circle_01)"
    by (simp_all add: is_Circle_or_Polygon_def)
  have "Distance 4 (PolygonShape tri_poly) identity_xf (CircleShape circle_01) identity_xf
       = Some (Inr 1)"
    using tri_region_C_reached [of 1]
    by (simp add: Distance_def numeral_eq_Suc)
       (simp add: evolveTriangle_def GJK_run tri_poly_Points circle_01_def tri_region_C_def
         ClosestPoint_def)
  then show ?thesis
    using k Distance_symmetric [OF k, of 4 identity_xf identity_xf] by simp
qed


subsection \<open>Range of the time of impact\<close>

lemma target_tolerance: "0 < tolerance" "tolerance < target"
  by (simp_all add: target_def tolerance_def)

lemma secant_between:
  fixes a1 a2 s1 s2 :: real
  assumes "a1 \<le> a2" "target < s1" "s2 < target"
  shows "a1 \<le> a1 + (target - s1) * (a2 - a1) / (s2 - s1)"
    and "a1 + (target - s1) * (a2 - a1) / (s2 - s1) \<le> a2"
proof -
  let ?r = "(target - s1) / (s2 - s1)"
  have d: "s2 - s1 < 0" using assms by simp
  have r0: "0 \<le> ?r" using assms by (simp add: divide_nonpos_neg)
  have r1: "?r \<le> 1" using assms d by (simp add: neg_le_divide_eq)
  have e: "(target - s1) * (a2 - a1) / (s2 - s1) = ?r * (a2 - a1)" by simp
  have "0 \<le> ?r * (a2 - a1)" using r0 assms(1) by (intro mult_nonneg_nonneg) simp_all
  then show "a1 \<le> a1 + (target - s1) * (a2 - a1) / (s2 - s1)" unfolding e by linarith
  have "?r * (a2 - a1) \<le> 1 * (a2 - a1)" using r1 assms(1) by (intro mult_right_mono) simp_all
  then have "?r * (a2 - a1) \<le> a2 - a1" by simp
  then show "a1 + (target - s1) * (a2 - a1) / (s2 - s1) \<le> a2" unfolding e by linarith
qed

lemma root_finder_range:
  assumes "root_finder fcn sweepA sweepB ia ib js a1 a2 s1 s2 t2 = Inr t"
    and "lo \<le> a1" "a1 \<le> a2" "a2 \<le> hi" "target < s1" "s2 < target" "lo \<le> t2" "t2 \<le> hi"
  shows "lo \<le> t \<and> t \<le> hi"
  using assms
proof (induction js arbitrary: a1 a2 s1 s2)
  case Nil
  then show ?case by simp
next
  case (Cons j js)
  define t' where "t' = (if odd j then a1 + (target - s1) * (a2 - a1) / (s2 - s1)
               else 0.5 * (a1 + a2))"
  have b: "a1 \<le> t'" "t' \<le> a2"
    using secant_between [OF Cons.prems(3) Cons.prems(5) Cons.prems(6)] Cons.prems(3)
    by (auto simp: t'_def)
  obtain s where ev: "Evaluate fcn ia (GetTransform sweepA t') ib (GetTransform sweepB t') = Inr s"
    using Cons.prems(1)
    by (cases "Evaluate fcn ia (GetTransform sweepA t') ib (GetTransform sweepB t')")
       (simp_all add: t'_def Let_def)
  show ?case
  proof (cases "\<bar>s - target\<bar> < tolerance")
    case True
    then have "t = t'" using Cons.prems(1) ev by (simp add: t'_def Let_def)
    then show ?thesis using b Cons.prems by simp
  next
    case nt: False
    show ?thesis
    proof (cases "s > target")
      case True
      then have "root_finder fcn sweepA sweepB ia ib js t' a2 s s2 t2 = Inr t"
        using Cons.prems(1) ev nt by (simp add: t'_def Let_def)
      then show ?thesis
        using Cons.IH [of t' a2 s s2] b Cons.prems True by simp
    next
      case False
      then have lt: "s < target" using nt target_tolerance(1) by (cases "s = target") simp_all
      have "root_finder fcn sweepA sweepB ia ib js a1 t' s1 s t2 = Inr t"
        using Cons.prems(1) ev nt False by (simp add: t'_def Let_def)
      then show ?thesis
        using Cons.IH [of a1 t' s1 s] b Cons.prems lt by simp
    qed
  qed
qed

lemma inner_loop_range:
  assumes "inner_loop fcn sweepA sweepB is t1 t2 = Inr r" and "t1 \<le> t2" "t2 \<le> hi"
  shows "case r of Return x \<Rightarrow> x = 1 | BreakLoop \<Rightarrow> True | NextRound t \<Rightarrow> t1 \<le> t \<and> t \<le> hi"
  using assms
proof (induction "is" arbitrary: t2)
  case Nil
  then show ?case by auto
next
  case (Cons i "is")
  obtain ia ib s2 where ms:
    "MinSeparation fcn (GetTransform sweepA t2) (GetTransform sweepB t2) = Inr (ia, ib, s2)"
    using Cons.prems(1)
    by (cases "MinSeparation fcn (GetTransform sweepA t2) (GetTransform sweepB t2)") auto
  show ?case
  proof (cases "s2 > target + tolerance")
    case True
    then show ?thesis using Cons.prems(1) ms by auto
  next
    case f1: False
    show ?thesis
    proof (cases "s2 > target - tolerance")
      case True
      then show ?thesis using Cons.prems ms f1 by auto
    next
      case f2: False
      obtain s1 where ev:
        "Evaluate fcn ia (GetTransform sweepA t1) ib (GetTransform sweepB t1) = Inr s1"
        using Cons.prems(1) ms f1 f2
        by (cases "Evaluate fcn ia (GetTransform sweepA t1) ib (GetTransform sweepB t1)") auto
      show ?thesis
      proof (cases "s1 < target - tolerance \<or> s1 \<le> target + tolerance")
        case True
        then show ?thesis using Cons.prems(1) ms f1 f2 ev by (auto split: if_splits)
      next
        case f3: False
        obtain t2' where rf:
          "root_finder fcn sweepA sweepB ia ib [0..<50] t1 t2 s1 s2 t2 = Inr t2'"
          using Cons.prems(1) ms f1 f2 ev f3
          by (cases "root_finder fcn sweepA sweepB ia ib [0..<50] t1 t2 s1 s2 t2") auto
        have "t1 \<le> t2' \<and> t2' \<le> t2"
          using root_finder_range [OF rf, of t1 t2] Cons.prems(2) f2 f3 target_tolerance
          by auto
        moreover have "inner_loop fcn sweepA sweepB is t1 t2' = Inr r"
          using Cons.prems(1) ms f1 f2 ev f3 rf by auto
        ultimately show ?thesis
          using Cons.IH [of t2'] Cons.prems by auto
      qed
    qed
  qed
qed

lemma outer_loop_range:
  assumes "outer_loop k a sweepA b sweepB is simplex cache t1 = Some (Inr (t, s'))"
    and "0 \<le> t1" "t1 \<le> 1"
  shows "0 \<le> t \<and> t \<le> 1"
  using assms
proof (induction "is" arbitrary: simplex cache t1)
  case Nil
  then show ?case by simp
next
  case (Cons i "is")
  let ?xfa = "GetTransform sweepA t1" and ?xfb = "GetTransform sweepB t1"
  note p = Cons.prems(1)
  obtain s1 where rc: "ReadCache simplex cache a ?xfa b ?xfb = Inr s1"
    using p by (cases "ReadCache simplex cache a ?xfa b ?xfb") (simp_all add: Let_def)
  obtain s2 where g: "GJK k s1 a ?xfa b ?xfb = Some (Inr s2)"
    using p rc by (cases "GJK k s1 a ?xfa b ?xfb") (auto simp: Let_def split: sum.splits)
  obtain cache' where wc: "WriteCache s2 cache = Inr cache'"
    using p rc g by (cases "WriteCache s2 cache") (simp_all add: Let_def)
  obtain cp where cl: "ClosestPoint s2 = Inr cp"
    using p rc g wc by (cases "ClosestPoint s2") (simp_all add: Let_def)
  show ?case
  proof (cases "Length cp \<le> 0 \<or> Length cp < target + tolerance")
    case True
    then show ?thesis using p rc g wc cl Cons.prems(2,3) by (auto simp: Let_def split: if_splits)
  next
    case far: False
    obtain fcn where i: "init (newSeparation a b) cache' ?xfa ?xfb = Inr fcn"
      using p rc g wc cl far
      by (cases "init (newSeparation a b) cache' ?xfa ?xfb") (auto simp: Let_def)
    obtain r where il: "inner_loop fcn sweepA sweepB [0..<20] t1 1 = Inr r"
      using p rc g wc cl far i
      by (cases "inner_loop fcn sweepA sweepB [0..<20] t1 1") (auto simp: Let_def)
    have rr: "case r of Return x \<Rightarrow> x = 1 | BreakLoop \<Rightarrow> True | NextRound t \<Rightarrow> t1 \<le> t \<and> t \<le> 1"
      using inner_loop_range [OF il, of 1] Cons.prems(3) by simp
    show ?thesis
    proof (cases r)
      case (Return x)
      then show ?thesis using p rc g wc cl far i il rr by (auto simp: Let_def)
    next
      case BreakLoop
      then show ?thesis using p rc g wc cl far i il Cons.prems(2,3) by (auto simp: Let_def)
    next
      case (NextRound t1')
      then have "outer_loop k a sweepA b sweepB is s2 cache' t1' = Some (Inr (t, s'))"
        using p rc g wc cl far i il by (auto simp: Let_def)
      then show ?thesis
        using Cons.IH [of s2 cache' t1'] rr NextRound Cons.prems(2) by auto
    qed
  qed
qed

text \<open>
  C3. For all shapes, every simplex of the caller and all sweeps, a value \<open>t\<close> that
  \<^verbatim>\<open>TimeOfImpact\<close> returns satisfies \<open>0 \<le> t \<le> 1\<close>.
\<close>

theorem TimeOfImpact_range:
  assumes "TimeOfImpact k simplex a sweepA b sweepB = Some (Inr (t, s'))"
  shows "0 \<le> t \<and> t \<le> 1"
  using outer_loop_range [of k a sweepA b sweepB "[0..<100]" simplex zero_SimplexCache 0 t s'] assms
  by (simp add: TimeOfImpact_def)

text \<open>
  A run through the root finder: a circle at rest at the origin and one that moves from
  \<open>(3, 0)\<close> to the origin. The secant step finds \<open>t = 299/300\<close>, where the centres are at
  the distance \<open>target\<close>.
\<close>

lemma GetTransform_rest: "GetTransform sweep_rest t = identity_xf"
  by (simp add: GetTransform_def sweep_rest_def NewTransform_def NewRotation_def identity_xf_def
      Add_def Mul_def)

lemma GetTransform_approach:
  "GetTransform sweep_approach t = \<lparr>Position = \<lparr>X = 3 * (1 - t), Y = 0\<rparr>, Rotation = \<lparr>Sin = 0, Cos = 1\<rparr>\<rparr>"
  by (simp add: GetTransform_def sweep_approach_def NewTransform_def NewRotation_def
      Add_def Mul_def)

lemma Evaluate_sep_x:
  "Evaluate sep_x ia (GetTransform sweep_rest t) ib (GetTransform sweep_approach t) = Inr (3 * (1 - t))"
  by (simp add: Evaluate_def sep_x_def GetTransform_rest GetTransform_approach circle_00_def
      identity_xf_def point_ops)

lemma MinSeparation_sep_x:
  "MinSeparation sep_x (GetTransform sweep_rest t) (GetTransform sweep_approach t) = Inr (0, 0, 3 * (1 - t))"
  by (simp add: MinSeparation_def sep_x_def GetTransform_rest GetTransform_approach circle_00_def
      identity_xf_def point_ops)

lemma root_finder_sep_x:
  "root_finder sep_x sweep_rest sweep_approach 0 0 [0..<50] 0 1 3 0 1 = Inr (299 / 300)"
  by (simp add: upt_conv_Cons Evaluate_sep_x target_def tolerance_def)

lemma inner_loop_sep_x:
  "inner_loop sep_x sweep_rest sweep_approach [0..<20] 0 1 = Inr (NextRound (299 / 300))"
  by (simp add: upt_conv_Cons MinSeparation_sep_x Evaluate_sep_x
      root_finder_sep_x target_def tolerance_def)

lemmas TOI_run = GetTransform_rest GetTransform_approach ReadCache_def WriteCache_def Metric_def
  ClosestPoint_def init_def newSeparation_def Normalize_def
  zero_SimplexCache_def target_def tolerance_def GJK_run circle_00_def

lemma TimeOfImpact_approach:
  "TimeOfImpact 1 zero_Simplex (CircleShape circle_00) sweep_rest (CircleShape circle_00) sweep_approach
    = Some (Inr (299 / 300, simplex_at (1 / 100)))"
  unfolding TimeOfImpact_def
  apply (simp add: upt_conv_Cons del: outer_loop.simps)
  apply (subst outer_loop.simps)
  apply (simp add: TOI_run inner_loop_sep_x [unfolded sep_x_def circle_00_def] del: outer_loop.simps inner_loop.simps)
  apply (subst outer_loop.simps)
  apply (simp add: TOI_run simplex_at_def real_sqrt_divide del: outer_loop.simps inner_loop.simps)
  done

theorem TimeOfImpact_range_witness:
  "TimeOfImpact 1 zero_Simplex (CircleShape circle_00) sweep_rest (CircleShape circle_00)
     sweep_approach = Some (Inr (299 / 300, simplex_at (1 / 100)))
   \<and> (0::real) \<le> 299 / 300 \<and> (299::real) / 300 \<le> 1"
  using TimeOfImpact_range [OF TimeOfImpact_approach] TimeOfImpact_approach by simp

end
